theory Spec2Isabelle
  imports Main
begin

section \<open>Errors and transport data\<close>

text \<open>
  An AMQP error as the transport hands it over: both fields are optional strings
  (\<open>undefined\<close> is \<open>None\<close>).
\<close>

record AmqpError =
  condition :: "string option"
  description :: "string option"

text \<open>
  The domain error produced by \<open>translate\<close> of the AMQP common library. The function
  itself is outside the repository; every operation below that calls it takes it as the
  parameter \<open>translate\<close>.
\<close>

record MessagingError =
  err_name :: string
  retryable :: bool

text \<open>What a settlement promise can be rejected with.\<close>

datatype reason = Error string | Translated MessagingError

datatype outcome = Resolved | Rejected reason

text \<open>JavaScript truthiness of an optional string: \<open>undefined\<close> and \<open>""\<close> are falsy.\<close>

definition truthy :: "string option \<Rightarrow> bool" where
  "truthy s = (case s of None \<Rightarrow> False | Some v \<Rightarrow> v \<noteq> [])"

record DeliveryState =
  state_error :: "AmqpError option"

record Delivery =
  delivery_id :: nat
  remote_state :: "DeliveryState option"
  remote_settled :: bool

record EventContext =
  delivery :: "Delivery option"

type_synonym dictionary = "(string \<times> string) list"

record DispositionOptions =
  propertiesToModify :: "dictionary option"
  error :: "AmqpError option"

text \<open>
  The transport disposition primitives of a delivery: \<open>accept()\<close>,
  \<open>modified({undeliverable_here, message_annotations})\<close> and \<open>reject(error)\<close>, each tagged
  with the identifier of the delivery it is called on.
\<close>

datatype frame =
  Accept nat
| Modified nat bool "dictionary option"
| Reject nat AmqpError

text \<open>The delivery a disposition primitive was called on.\<close>

fun frame_delivery :: "frame \<Rightarrow> nat" where
  "frame_delivery (Accept i) = i"
| "frame_delivery (Modified i undeliverable annotations) = i"
| "frame_delivery (Reject i e) = i"

section \<open>The settlement protocol of the Message Receiver\<close>

text \<open>
  \<open>PromiseLike\<close> holds the \<open>resolve\<close> and \<open>reject\<close> callbacks of one promise and the handle
  of the timeout. Both callbacks belong to the same promise, which the model names by a
  number.
\<close>

record PromiseLike =
  promise :: nat
  timer :: nat

text \<open>
  The part of the receiver the settlement protocol works on: the disposition map, the
  timeouts of the event loop that are pending (handle to the delivery identifier and the
  promise its closure captured), the next fresh timer handle and promise, the disposition
  primitives called so far and the calls to \<open>resolve\<close> and \<open>reject\<close> so far, both in
  order.
\<close>

record settle_state =
  deliveryDispositionMap :: "nat \<rightharpoonup> PromiseLike"
  timers :: "nat \<rightharpoonup> nat \<times> nat"
  nextTimer :: nat
  nextPromise :: nat
  frames :: "frame list"
  settlements :: "(nat \<times> outcome) list"

definition init_settle_state :: settle_state where
  "init_settle_state =
     \<lparr>deliveryDispositionMap = Map.empty, timers = Map.empty, nextTimer = 0,
      nextPromise = 0, frames = [], settlements = []\<rparr>"

text \<open>The regular expression \<open>/^(complete|abandon|defer|deadletter)$/\<close>.\<close>

definition valid_operation :: "string \<Rightarrow> bool" where
  "valid_operation operation =
     (operation = ''complete'' \<or> operation = ''abandon'' \<or> operation = ''defer'' \<or>
      operation = ''deadletter'')"

definition invalid_operation_message :: "string \<Rightarrow> string" where
  "invalid_operation_message operation =
     ''operation: '' @ [CHR 0x27] @ operation @ [CHR 0x27] @ '' is not a valid operation.''"

text \<open>The disposition primitive \<open>settleMessage\<close> calls for a recognized operation.\<close>

definition disposition :: "Delivery \<Rightarrow> string \<Rightarrow> DispositionOptions \<Rightarrow> frame list" where
  "disposition d operation options =
     (if operation = ''complete'' then [Accept (delivery_id d)]
      else if operation = ''abandon'' then
        [Modified (delivery_id d) False (propertiesToModify options)]
      else if operation = ''defer'' then
        [Modified (delivery_id d) True (propertiesToModify options)]
      else if operation = ''deadletter'' then
        [Reject (delivery_id d)
           (case error options of None \<Rightarrow> \<lparr>condition = None, description = None\<rparr>
            | Some e \<Rightarrow> e)]
      else [])"

text \<open>
  \<open>settleMessage\<close>: creates the promise, rejects it at once for an unknown operation,
  otherwise starts the timeout, stores the record under the delivery identifier and calls
  the disposition primitive. The result is the promise and the new state.
\<close>

definition settleMessage ::
  "settle_state \<Rightarrow> Delivery \<Rightarrow> string \<Rightarrow> DispositionOptions \<Rightarrow> nat \<times> settle_state" where
  "settleMessage st d operation options =
     (let p = nextPromise st; st0 = st\<lparr>nextPromise := Suc p\<rparr> in
      if \<not> valid_operation operation then
        (p, st0\<lparr>settlements := settlements st0 @
                   [(p, Rejected (Error (invalid_operation_message operation)))]\<rparr>)
      else
        let t = nextTimer st0 in
        (p, st0\<lparr>timers := (timers st0)(t \<mapsto> (delivery_id d, p)),
                nextTimer := Suc t,
                deliveryDispositionMap :=
                  (deliveryDispositionMap st0)(delivery_id d \<mapsto> \<lparr>promise = p, timer = t\<rparr>),
                frames := frames st0 @ disposition d operation options\<rparr>))"

text \<open>\<open>clearTimeout\<close>: the timeout is no longer pending.\<close>

definition clearTimeout :: "settle_state \<Rightarrow> nat \<Rightarrow> settle_state" where
  "clearTimeout st t = st\<lparr>timers := (timers st)(t := None)\<rparr>"

text \<open>
  The callback of the timeout started by \<open>settleMessage\<close>, run by the event loop when the
  timeout \<open>t\<close> expires. A timeout that is not pending (never started, already expired or
  cleared) does not run.
\<close>

definition timeoutExpired :: "settle_state \<Rightarrow> nat \<Rightarrow> settle_state" where
  "timeoutExpired st t =
     (case timers st t of
        None \<Rightarrow> st
      | Some (i, p) \<Rightarrow>
          st\<lparr>timers := (timers st)(t := None),
             deliveryDispositionMap := (deliveryDispositionMap st)(i := None),
             settlements := settlements st @ [(p, Resolved)]\<rparr>)"

text \<open>
  The test \<open>state && state.error && (state.error.condition || state.error.description)\<close>
  of \<open>_onSettled\<close>: the error the remote state carries, if it has one with a condition
  or a description.
\<close>

definition error_of_state :: "DeliveryState option \<Rightarrow> AmqpError option" where
  "error_of_state state =
     (case state of
        None \<Rightarrow> None
      | Some s \<Rightarrow>
          (case state_error s of
             None \<Rightarrow> None
           | Some e \<Rightarrow>
               if truthy (condition e) \<or> truthy (description e) then Some e else None))"

text \<open>The handler \<open>_onSettled\<close> of the transport's "settled" event.\<close>

definition onSettled ::
  "(AmqpError \<Rightarrow> MessagingError) \<Rightarrow> settle_state \<Rightarrow> EventContext \<Rightarrow> settle_state" where
  "onSettled translate st context =
     (case delivery context of
        None \<Rightarrow> st
      | Some d \<Rightarrow>
          (case (if remote_settled d then deliveryDispositionMap st (delivery_id d) else None) of
             None \<Rightarrow> st
           | Some pr \<Rightarrow>
               let st1 = clearTimeout st (timer pr);
                   st2 = st1\<lparr>deliveryDispositionMap :=
                               (deliveryDispositionMap st1)(delivery_id d := None)\<rparr>
               in (case error_of_state (remote_state d) of
                     Some e \<Rightarrow>
                       st2\<lparr>settlements := settlements st2 @
                              [(promise pr, Rejected (Translated (translate e)))]\<rparr>
                   | None \<Rightarrow>
                       st2\<lparr>settlements := settlements st2 @ [(promise pr, Resolved)]\<rparr>)))"

subsection \<open>The events of the settlement protocol\<close>

text \<open>
  The receiver runs on one event loop, so its settlement state changes only by whole
  callbacks: a call of \<open>settleMessage\<close>, a "settled" event of the transport, or the
  expiry of a timeout.
\<close>

datatype event =
  Settle Delivery string DispositionOptions
| Settled EventContext
| Timeout nat

fun step :: "(AmqpError \<Rightarrow> MessagingError) \<Rightarrow> settle_state \<Rightarrow> event \<Rightarrow> settle_state" where
  "step translate st (Settle d operation options) = snd (settleMessage st d operation options)"
| "step translate st (Settled context) = onSettled translate st context"
| "step translate st (Timeout t) = timeoutExpired st t"

definition run :: "(AmqpError \<Rightarrow> MessagingError) \<Rightarrow> settle_state \<Rightarrow> event list \<Rightarrow> settle_state" where
  "run translate st evs = foldl (step translate) st evs"

text \<open>The outcomes a promise was settled with, in the order of the calls.\<close>

definition outcomes :: "nat \<Rightarrow> settle_state \<Rightarrow> outcome list" where
  "outcomes p st = map snd (filter (\<lambda>c. fst c = p) (settlements st))"

text \<open>An event that does not concern the delivery \<open>i\<close> nor the timeout \<open>t\<close>.\<close>

fun foreign :: "nat \<Rightarrow> nat \<Rightarrow> event \<Rightarrow> bool" where
  "foreign i t (Settle d operation options) = (delivery_id d \<noteq> i)"
| "foreign i t (Settled context) =
     (case delivery context of None \<Rightarrow> True
      | Some d \<Rightarrow> delivery_id d \<noteq> i \<or> \<not> remote_settled d)"
| "foreign i t (Timeout t') = (t' \<noteq> t)"

text \<open>
  No pending timeout was started for the delivery \<open>i\<close>. Timer handles are handed out in
  order, so the handles below the next fresh one are all there are.
\<close>

definition no_timeout_for :: "nat \<Rightarrow> settle_state \<Rightarrow> bool" where
  "no_timeout_for i st =
     (\<forall>t < nextTimer st. case timers st t of None \<Rightarrow> True | Some (j, q) \<Rightarrow> j \<noteq> i)"

text \<open>Handles and promises in use are below the next fresh ones.\<close>

definition fresh :: "settle_state \<Rightarrow> bool" where
  "fresh st =
     ((\<forall>j r. deliveryDispositionMap st j = Some r \<longrightarrow>
          promise r < nextPromise st \<and> timer r < nextTimer st) \<and>
      (\<forall>t j q. timers st t = Some (j, q) \<longrightarrow> t < nextTimer st \<and> q < nextPromise st) \<and>
      (\<forall>c \<in> set (settlements st). fst c < nextPromise st))"

text \<open>
  The settlement of promise \<open>p\<close> for delivery \<open>i\<close> is outstanding with timeout \<open>t\<close>, and
  nothing else in the state refers to \<open>i\<close>, \<open>p\<close> or \<open>t\<close>.
\<close>

definition outstanding :: "nat \<Rightarrow> nat \<Rightarrow> nat \<Rightarrow> settle_state \<Rightarrow> bool" where
  "outstanding i p t st =
     (deliveryDispositionMap st i = Some \<lparr>promise = p, timer = t\<rparr> \<and>
      timers st t = Some (i, p) \<and>
      (\<forall>t' j q. timers st t' = Some (j, q) \<longrightarrow> t' \<noteq> t \<longrightarrow> j \<noteq> i \<and> q \<noteq> p) \<and>
      (\<forall>j r. deliveryDispositionMap st j = Some r \<longrightarrow> j \<noteq> i \<longrightarrow>
          promise r \<noteq> p \<and> timer r \<noteq> t) \<and>
      outcomes p st = [] \<and> p < nextPromise st \<and> t < nextTimer st)"

text \<open>Nothing in the state can settle the promise \<open>p\<close> any more.\<close>

definition finished :: "nat \<Rightarrow> settle_state \<Rightarrow> bool" where
  "finished p st =
     ((\<forall>j r. deliveryDispositionMap st j = Some r \<longrightarrow> promise r \<noteq> p) \<and>
      (\<forall>t j q. timers st t = Some (j, q) \<longrightarrow> q \<noteq> p) \<and>
      p < nextPromise st)"

subsection \<open>Concrete inputs\<close>

definition delivery7 :: Delivery where
  "delivery7 = \<lparr>delivery_id = 7, remote_state = None, remote_settled = False\<rparr>"

definition no_options :: DispositionOptions where
  "no_options = \<lparr>propertiesToModify = None, error = None\<rparr>"

text \<open>A "settled" event for delivery 7 that carries an error.\<close>

definition internal_error :: AmqpError where
  "internal_error = \<lparr>condition = Some ''amqp:internal-error'', description = None\<rparr>"

definition rejected7 :: EventContext where
  "rejected7 =
     \<lparr>delivery = Some \<lparr>delivery_id = 7,
        remote_state = Some \<lparr>state_error = Some internal_error\<rparr>,
        remote_settled = True\<rparr>\<rparr>"

text \<open>A translation of errors, for the concrete runs.\<close>

definition translate0 :: "AmqpError \<Rightarrow> MessagingError" where
  "translate0 e =
     \<lparr>err_name =
        (case condition e of
           None \<Rightarrow> ''Error''
         | Some c \<Rightarrow>
             if c = ''com.microsoft:message-lock-lost'' then ''MessageLockLostError'' else c),
      retryable = (condition e = Some ''com.microsoft:server-busy'')\<rparr>"

definition delivery8 :: Delivery where
  "delivery8 = \<lparr>delivery_id = 8, remote_state = None, remote_settled = False\<rparr>"

text \<open>Two calls of \<open>settleMessage\<close> for the same delivery.\<close>

definition settled_twice :: "event list" where
  "settled_twice =
     [Settle delivery7 ''complete'' no_options, Settle delivery7 ''complete'' no_options]"

text \<open>
  The state after \<open>settleMessage\<close> was called in state \<open>st\<close> and the events \<open>evs\<close> were
  handled.
\<close>

definition after_settle ::
  "(AmqpError \<Rightarrow> MessagingError) \<Rightarrow> settle_state \<Rightarrow> Delivery \<Rightarrow> string \<Rightarrow>
     DispositionOptions \<Rightarrow> event list \<Rightarrow> settle_state" where
  "after_settle translate st d operation options evs =
     run translate (snd (settleMessage st d operation options)) evs"

section \<open>The receiver link and the Entity Context\<close>

datatype ReceiverType = batching | streaming

datatype ReceiveMode = peekLock | receiveAndDelete

text \<open>
  The AMQP receiver link of the transport, as far as the receiver reads it: its name and
  the answers of \<open>isOpen()\<close> and \<open>isClosed()\<close>.
\<close>

record Receiver =
  link_name :: string
  link_isOpen :: bool
  link_isClosed :: bool

text \<open>
  The options \<open>_createReceiverOptions\<close> builds. The event handlers it installs are the
  receiver's own and are left out.
\<close>

record ReceiverOptions =
  options_name :: string
  autoaccept :: bool
  rcv_settle_mode :: nat
  snd_settle_mode :: nat
  source_address :: string
  credit_window :: int

text \<open>
  The fields of \<open>MessageReceiver\<close> and of its base class. \<open>receiver\<close> is the field
  \<open>_receiver\<close>, a reference to a link or \<open>undefined\<close>; \<open>tokenRenewalTimer\<close> tells whether
  the token renewal timer of the base class is pending.
\<close>

record MessageReceiver =
  name :: string
  address :: string
  receiverType :: ReceiverType
  receiveMode :: ReceiveMode
  maxConcurrentCalls :: int
  autoComplete :: bool
  maxAutoRenewDurationInSeconds :: int
  autoRenewLock :: bool
  isConnecting :: bool
  receiver :: "nat option"
  tokenRenewalTimer :: bool

record MessageSender =
  sender_name :: string
  sender_isConnecting :: bool

text \<open>
  The Entity Context. The two receiver slots hold references to receiver objects.
\<close>

record ClientEntityContext =
  entityPath :: string
  sender :: "MessageSender option"
  streamingReceiver :: "nat option"
  batchingReceiver :: "nat option"

text \<open>
  What the receiver asks of its collaborators, in order: the claim negotiation and the
  token renewal of the base class, the creation of a link by the connection, the call of
  the retry function, the delay between two attempts, the \<open>detached\<close> of the sender, and
  the error \<open>detached\<close> hands to the error log when it gives up.
\<close>

datatype effect =
  NegotiateClaim nat
| CreateReceiver nat ReceiverOptions
| EnsureTokenRenewal nat
| Retry nat nat
| Delay nat
| SenderDetached string
| DetachedFailed nat "MessagingError option"

text \<open>
  The objects: the Entity Context, the receivers and the links by reference, the next
  fresh link, and the effects so far.
\<close>

record world =
  entityContext :: ClientEntityContext
  receivers :: "nat \<Rightarrow> MessageReceiver"
  links :: "nat \<Rightarrow> Receiver"
  nextLink :: nat
  effects :: "effect list"

text \<open>
  What the collaborators answer during one run of \<open>_init\<close>: for each of the three calls,
  the error it fails with, or none.
\<close>

record init_env =
  negotiateClaim :: "AmqpError option"
  createReceiver :: "AmqpError option"
  ensureTokenRenewal :: "AmqpError option"

subsection \<open>The constructor\<close>

record ReceiveOptions =
  opt_receiveMode :: "ReceiveMode option"
  opt_maxConcurrentCalls :: "int option"
  opt_autoComplete :: "bool option"
  opt_maxAutoRenewDurationInSeconds :: "int option"

definition new_MessageReceiver ::
  "ClientEntityContext \<Rightarrow> ReceiverType \<Rightarrow> ReceiveOptions \<Rightarrow> MessageReceiver" where
  "new_MessageReceiver ctx type options =
     (let mode = (case opt_receiveMode options of None \<Rightarrow> peekLock | Some m \<Rightarrow> m);
          renew = (case opt_maxAutoRenewDurationInSeconds options of None \<Rightarrow> 300 | Some n \<Rightarrow> n)
      in \<lparr>name = entityPath ctx,
          address = entityPath ctx,
          receiverType = type,
          receiveMode = mode,
          maxConcurrentCalls =
            (case opt_maxConcurrentCalls options of None \<Rightarrow> 1 | Some n \<Rightarrow> n),
          autoComplete = (case opt_autoComplete options of None \<Rightarrow> False | Some b \<Rightarrow> b),
          maxAutoRenewDurationInSeconds = renew,
          autoRenewLock = (renew > 0 \<and> mode = peekLock),
          isConnecting = False,
          receiver = None,
          tokenRenewalTimer = False\<rparr>)"

subsection \<open>Operations of the receiver\<close>

text \<open>\<open>isOpen()\<close>: \<open>this._receiver && this._receiver.isOpen()\<close>.\<close>

definition isOpen :: "world \<Rightarrow> nat \<Rightarrow> bool" where
  "isOpen w this =
     (case receiver (receivers w this) of None \<Rightarrow> False | Some l \<Rightarrow> link_isOpen (links w l))"

text \<open>
  Modelled from the spec: \<open>_closeLink\<close> of the base class \<open>LinkEntity\<close>, whose file is not
  among the sources. The close protocol of the spec: stop any pending token-renewal
  timer, close the link (and its session) if there is one; the link is then closed and no
  longer open.
\<close>

definition closeLink :: "world \<Rightarrow> nat \<Rightarrow> nat option \<Rightarrow> world" where
  "closeLink w this link =
     (let w1 = w\<lparr>receivers :=
                  (receivers w)(this := (receivers w this)\<lparr>tokenRenewalTimer := False\<rparr>)\<rparr>
      in case link of
           None \<Rightarrow> w1
         | Some l \<Rightarrow>
             w1\<lparr>links :=
                  (links w1)(l := (links w1 l)\<lparr>link_isOpen := False, link_isClosed := True\<rparr>)\<rparr>)"

text \<open>\<open>_deleteFromCache\<close>.\<close>

definition deleteFromCache :: "world \<Rightarrow> nat \<Rightarrow> world" where
  "deleteFromCache w this =
     (let w1 = w\<lparr>receivers := (receivers w)(this := (receivers w this)\<lparr>receiver := None\<rparr>)\<rparr>
      in if receiverType (receivers w1 this) = streaming then
           w1\<lparr>entityContext := (entityContext w1)\<lparr>streamingReceiver := None\<rparr>\<rparr>
         else if receiverType (receivers w1 this) = batching then
           w1\<lparr>entityContext := (entityContext w1)\<lparr>batchingReceiver := None\<rparr>\<rparr>
         else w1)"

text \<open>\<open>close()\<close>.\<close>

definition close :: "world \<Rightarrow> nat \<Rightarrow> world" where
  "close w this =
     (case receiver (receivers w this) of
        None \<Rightarrow> w
      | Some receiverLink \<Rightarrow> closeLink (deleteFromCache w this) this (Some receiverLink))"

text \<open>
  \<open>_createReceiverOptions\<close>. With \<open>newName\<close> the receiver takes the name
  \<open>getUniqueName(entityPath)\<close>; \<open>getUniqueName\<close> is outside the sources and a parameter.
\<close>

definition createReceiverOptions ::
  "(string \<Rightarrow> string) \<Rightarrow> world \<Rightarrow> nat \<Rightarrow> bool \<Rightarrow> ReceiverOptions \<times> world" where
  "createReceiverOptions getUniqueName w this newName =
     (let w1 = (if newName then
                  w\<lparr>receivers := (receivers w)(this :=
                       (receivers w this)\<lparr>name := getUniqueName (entityPath (entityContext w))\<rparr>)\<rparr>
                else w);
          r = receivers w1 this
      in (\<lparr>options_name = name r,
           autoaccept = False,
           rcv_settle_mode = (if receiveMode r = receiveAndDelete then 0 else 1),
           snd_settle_mode = (if receiveMode r = receiveAndDelete then 1 else 0),
           source_address = address r,
           credit_window = maxConcurrentCalls r\<rparr>, w1))"

text \<open>The \<open>catch\<close> block of \<open>_init\<close>.\<close>

definition init_failed ::
  "(AmqpError \<Rightarrow> MessagingError) \<Rightarrow> world \<Rightarrow> nat \<Rightarrow> AmqpError \<Rightarrow>
     (MessagingError + unit) \<times> world" where
  "init_failed translate w this err =
     (Inl (translate err),
      w\<lparr>receivers := (receivers w)(this := (receivers w this)\<lparr>isConnecting := False\<rparr>)\<rparr>)"

text \<open>
  \<open>_init\<close>. The result is \<open>Inl\<close> of the translated error when it throws. The link the
  connection creates is open and carries the name of the options; the token renewal of
  the base class, when it succeeds, leaves its timer pending.
\<close>

definition init ::
  "(AmqpError \<Rightarrow> MessagingError) \<Rightarrow> (string \<Rightarrow> string) \<Rightarrow> world \<Rightarrow> nat \<Rightarrow>
     ReceiverOptions option \<Rightarrow> init_env \<Rightarrow> (MessagingError + unit) \<times> world" where
  "init translate getUniqueName w this options env =
     (if \<not> isOpen w this \<and> \<not> isConnecting (receivers w this) then
        let w1 = w\<lparr>receivers := (receivers w)(this := (receivers w this)\<lparr>isConnecting := True\<rparr>),
                   effects := effects w @ [NegotiateClaim this]\<rparr>
        in case negotiateClaim env of
             Some err \<Rightarrow> init_failed translate w1 this err
           | None \<Rightarrow>
               let (options1, w2) =
                     (case options of
                        None \<Rightarrow> createReceiverOptions getUniqueName w1 this False
                      | Some given \<Rightarrow> (given, w1));
                   w3 = w2\<lparr>effects := effects w2 @ [CreateReceiver this options1]\<rparr>
               in case createReceiver env of
                    Some err \<Rightarrow> init_failed translate w3 this err
                  | None \<Rightarrow>
                      let l = nextLink w3;
                          w4 = w3\<lparr>links := (links w3)(l :=
                                    \<lparr>link_name = options_name options1, link_isOpen = True,
                                     link_isClosed = False\<rparr>),
                                  nextLink := Suc l\<rparr>;
                          w5 = w4\<lparr>receivers := (receivers w4)(this :=
                                    (receivers w4 this)\<lparr>receiver := Some l,
                                       isConnecting := False\<rparr>)\<rparr>;
                          w6 = (if receiverType (receivers w5 this) = streaming \<and>
                                   streamingReceiver (entityContext w5) = None then
                                  w5\<lparr>entityContext := (entityContext w5)\<lparr>streamingReceiver := Some this\<rparr>\<rparr>
                                else if receiverType (receivers w5 this) = batching \<and>
                                   batchingReceiver (entityContext w5) = None then
                                  w5\<lparr>entityContext := (entityContext w5)\<lparr>batchingReceiver := Some this\<rparr>\<rparr>
                                else w5);
                          w7 = w6\<lparr>effects := effects w6 @ [EnsureTokenRenewal this]\<rparr>
                      in case ensureTokenRenewal env of
                           Some err \<Rightarrow> init_failed translate w7 this err
                         | None \<Rightarrow>
                             (Inr (),
                              w7\<lparr>receivers := (receivers w7)(this :=
                                   (receivers w7 this)\<lparr>tokenRenewalTimer := True\<rparr>)\<rparr>)
      else (Inr (), w))"

subsection \<open>The retry function\<close>

text \<open>
  Modelled from the spec: \<open>retry\<close> of the AMQP common library, which is not among the
  sources. The Retry Orchestrator of the spec: it invokes the operation; on failure it
  classifies the error as retryable or terminal; it retries up to the given number of
  attempts, separated by the delay; it returns the final error if all attempts are
  exhausted, and the result at once on the first success. The operation takes the number
  of the attempt, which selects what the collaborators answer.
\<close>

fun retry_from ::
  "(nat \<Rightarrow> world \<Rightarrow> (MessagingError + unit) \<times> world) \<Rightarrow> nat \<Rightarrow> nat \<Rightarrow> nat \<Rightarrow>
     MessagingError option \<Rightarrow> world \<Rightarrow> (MessagingError option + unit) \<times> world" where
  "retry_from operation delayInSeconds 0 i lastError w = (Inl lastError, w)"
| "retry_from operation delayInSeconds (Suc n) i lastError w =
     (case operation i w of
        (Inr v, w1) \<Rightarrow> (Inr v, w1)
      | (Inl err, w1) \<Rightarrow>
          if retryable err then
            retry_from operation delayInSeconds n (Suc i) (Some err)
              (if n = 0 then w1 else w1\<lparr>effects := effects w1 @ [Delay delayInSeconds]\<rparr>)
          else (Inl (Some err), w1))"

text \<open>
  Modelled from the spec: the entry point \<open>retry(config)\<close> of the same library
  function, with \<open>times\<close> and \<open>delayInSeconds\<close> of the configuration; its call is
  recorded.
\<close>

definition retry ::
  "(nat \<Rightarrow> world \<Rightarrow> (MessagingError + unit) \<times> world) \<Rightarrow> nat \<Rightarrow> nat \<Rightarrow> world \<Rightarrow>
     (MessagingError option + unit) \<times> world" where
  "retry operation maxAttempts delayInSeconds w =
     retry_from operation delayInSeconds maxAttempts 0 None
       (w\<lparr>effects := effects w @ [Retry maxAttempts delayInSeconds]\<rparr>)"

subsection \<open>The detach protocol\<close>

text \<open>\<open>wasCloseInitiated\<close>: \<open>this._receiver && this._receiver.isClosed()\<close>.\<close>

definition wasCloseInitiated :: "world \<Rightarrow> nat \<Rightarrow> bool" where
  "wasCloseInitiated w this =
     (case receiver (receivers w this) of
        None \<Rightarrow> False
      | Some l \<Rightarrow> link_isClosed (links w l))"

text \<open>The decision of \<open>detached\<close>, branch by branch.\<close>

definition shouldReopen ::
  "(AmqpError \<Rightarrow> MessagingError) \<Rightarrow> AmqpError option \<Rightarrow> bool \<Rightarrow> bool" where
  "shouldReopen translate receiverError closeInitiated =
     (if receiverError \<noteq> None \<and> \<not> closeInitiated then
        (if retryable (translate (the receiverError)) then True else False)
      else if \<not> closeInitiated then True
      else False)"

text \<open>
  \<open>detached\<close> of the receiver. \<open>envs i\<close> is what the collaborators answer during attempt
  \<open>i\<close>; \<open>attempts\<close> is the constant \<open>Constants.defaultConnectionRetryAttempts\<close> of the
  library. The promise of \<open>detached\<close> always resolves: an error of the retry function
  is caught and handed to the error log.
\<close>

definition detached ::
  "(AmqpError \<Rightarrow> MessagingError) \<Rightarrow> (string \<Rightarrow> string) \<Rightarrow> nat \<Rightarrow> world \<Rightarrow> nat \<Rightarrow>
     AmqpError option \<Rightarrow> (nat \<Rightarrow> init_env) \<Rightarrow> world" where
  "detached translate getUniqueName attempts w this receiverError envs =
     (let closeInitiated = wasCloseInitiated w this;
          w1 = closeLink w this (receiver (receivers w this))
      in if shouldReopen translate receiverError closeInitiated then
           let (options, w2) = createReceiverOptions getUniqueName w1 this True
           in case retry (\<lambda>i v. init translate getUniqueName v this (Some options) (envs i))
                     attempts 15 w2 of
                (Inr u, w3) \<Rightarrow> w3
              | (Inl err, w3) \<Rightarrow> w3\<lparr>effects := effects w3 @ [DetachedFailed this err]\<rparr>
         else w1)"

text \<open>
  \<open>detached\<close> of the Entity Context. The \<open>detached\<close> of the sender is outside the
  sources; its call is recorded. The receivers in the slots inherit the \<open>detached\<close>
  above.
\<close>

definition context_detached ::
  "(AmqpError \<Rightarrow> MessagingError) \<Rightarrow> (string \<Rightarrow> string) \<Rightarrow> nat \<Rightarrow> world \<Rightarrow>
     AmqpError option \<Rightarrow> (nat \<Rightarrow> init_env) \<Rightarrow> (nat \<Rightarrow> init_env) \<Rightarrow> world" where
  "context_detached translate getUniqueName attempts w err envs1 envs2 =
     (let w1 = (case sender (entityContext w) of
                  None \<Rightarrow> w
                | Some s \<Rightarrow>
                    if \<not> sender_isConnecting s then
                      w\<lparr>effects := effects w @ [SenderDetached (sender_name s)]\<rparr>
                    else w);
          w2 = (case batchingReceiver (entityContext w1) of
                  None \<Rightarrow> w1
                | Some b \<Rightarrow>
                    if \<not> isConnecting (receivers w1 b) then
                      detached translate getUniqueName attempts w1 b err envs1
                    else w1)
      in case batchingReceiver (entityContext w2) of
           None \<Rightarrow> w2
         | Some s \<Rightarrow>
             if \<not> isConnecting (receivers w2 s) then
               detached translate getUniqueName attempts w2 s err envs2
             else w2)"

subsection \<open>Reading the effects\<close>

text \<open>The effects that were added on the way from \<open>w\<close> to \<open>w'\<close>.\<close>

definition new_effects :: "world \<Rightarrow> world \<Rightarrow> effect list" where
  "new_effects w w' = drop (length (effects w)) (effects w')"


fun is_negotiate :: "effect \<Rightarrow> bool" where
  "is_negotiate (NegotiateClaim r) = True"
| "is_negotiate e = False"

text \<open>
  The error \<open>_init\<close> fails with before a link exists: that of the claim negotiation, or
  else that of the creation of the link.
\<close>

definition establishment_error :: "init_env \<Rightarrow> AmqpError option" where
  "establishment_error env =
     (case negotiateClaim env of Some err \<Rightarrow> Some err | None \<Rightarrow> createReceiver env)"

text \<open>The slot of the Entity Context for a role, and the other role.\<close>

fun slot :: "ReceiverType \<Rightarrow> ClientEntityContext \<Rightarrow> nat option" where
  "slot streaming c = streamingReceiver c"
| "slot batching c = batchingReceiver c"

fun other_role :: "ReceiverType \<Rightarrow> ReceiverType" where
  "other_role streaming = batching"
| "other_role batching = streaming"

text \<open>The receiver has no open link and is not connecting, so that \<open>_init\<close> goes ahead.\<close>

definition idle :: "world \<Rightarrow> nat \<Rightarrow> bool" where
  "idle w this = (\<not> isOpen w this \<and> \<not> isConnecting (receivers w this))"

subsection \<open>Concrete worlds\<close>

definition default_options :: ReceiveOptions where
  "default_options =
     \<lparr>opt_receiveMode = None, opt_maxConcurrentCalls = None, opt_autoComplete = None,
      opt_maxAutoRenewDurationInSeconds = None\<rparr>"

definition open_link :: Receiver where
  "open_link = \<lparr>link_name = ''queue'', link_isOpen = True, link_isClosed = False\<rparr>"

text \<open>
  An Entity Context with a streaming receiver, object 0, whose link, object 0, is open; no
  sender and no batching receiver.
\<close>

definition streaming_context :: ClientEntityContext where
  "streaming_context =
     \<lparr>entityPath = ''queue'', sender = None, streamingReceiver = Some 0,
      batchingReceiver = None\<rparr>"

definition streaming_world :: world where
  "streaming_world =
     \<lparr>entityContext = streaming_context,
      receivers = (\<lambda>r. (new_MessageReceiver streaming_context streaming default_options)
                     \<lparr>receiver := (if r = 0 then Some 0 else None)\<rparr>),
      links = (\<lambda>l. open_link),
      nextLink = 1,
      effects = []\<rparr>"


text \<open>The same with a batching receiver, object 1, in place of the streaming one.\<close>

definition batching_context :: ClientEntityContext where
  "batching_context =
     \<lparr>entityPath = ''queue'', sender = None, streamingReceiver = None,
      batchingReceiver = Some 1\<rparr>"

definition batching_world :: world where
  "batching_world =
     \<lparr>entityContext = batching_context,
      receivers = (\<lambda>r. (new_MessageReceiver batching_context batching default_options)
                     \<lparr>receiver := (if r = 1 then Some 0 else None)\<rparr>),
      links = (\<lambda>l. open_link),
      nextLink = 1,
      effects = []\<rparr>"

text \<open>An Entity Context with no receiver registered and receivers that were never opened.\<close>

definition empty_context :: ClientEntityContext where
  "empty_context =
     \<lparr>entityPath = ''queue'', sender = None, streamingReceiver = None,
      batchingReceiver = None\<rparr>"

definition fresh_world :: world where
  "fresh_world =
     \<lparr>entityContext = empty_context,
      receivers = (\<lambda>r. new_MessageReceiver empty_context streaming default_options),
      links = (\<lambda>l. open_link),
      nextLink = 0,
      effects = []\<rparr>"

definition unique0 :: "string \<Rightarrow> string" where
  "unique0 path = path @ ''-1''"

definition server_busy :: AmqpError where
  "server_busy = \<lparr>condition = Some ''com.microsoft:server-busy'', description = None\<rparr>"

text \<open>Collaborators that always succeed, and a claim negotiation that always fails.\<close>

definition all_succeed :: "nat \<Rightarrow> init_env" where
  "all_succeed i = \<lparr>negotiateClaim = None, createReceiver = None, ensureTokenRenewal = None\<rparr>"

definition always_busy :: "nat \<Rightarrow> init_env" where
  "always_busy i =
     \<lparr>negotiateClaim = Some server_busy, createReceiver = None, ensureTokenRenewal = None\<rparr>"

section \<open>Handling one message\<close>

text \<open>
  \<open>_onAmqpMessage\<close> is an asynchronous function: between its steps the event loop runs
  the timeout of the lock renewal and the continuations of the promises it waits for. The
  model keeps the variables of its closure and lets the environment choose the next
  event.
\<close>

datatype phase = Handling | Completing | Abandoning | Done

text \<open>
  What the function does to the outside, in order: the call of \<open>renewLock\<close> of the
  management client, the call of \<open>clearTimeout\<close> with the value of the variable \<open>timer\<close>,
  the calls of \<open>complete()\<close> and \<open>abandon()\<close> of the message, and the calls of the
  application's error callback, with the error of a renewal as it was thrown or with a
  translated error.
\<close>

datatype action =
  RenewLock
| ClearTimeout "nat option"
| Complete
| Abandon
| OnRenewError AmqpError
| OnError MessagingError

text \<open>
  The variables \<open>timer\<close>, \<open>continueExecution\<close> and \<open>totalAutoLockRenewDuration\<close> of the
  closure; the timeouts of this message that are pending in the event loop; whether a
  call of \<open>renewLock\<close> is awaited; where the function stands; the actions so far.
\<close>

record message_state =
  renewTimer :: "nat option"
  continueExecution :: bool
  totalAutoLockRenewDuration :: int
  scheduled :: "nat set"
  nextHandle :: nat
  renewing :: bool
  phase :: phase
  actions :: "action list"

text \<open>
  \<open>autoRenewLockTask\<close>, run at the time \<open>now\<close>: it starts the timeout of the next
  renewal. The delay of the timeout, \<open>calculateRenewAfterDuration\<close>, does not matter
  here: the environment chooses when a pending timeout expires.
\<close>

definition autoRenewLockTask :: "int \<Rightarrow> message_state \<Rightarrow> message_state" where
  "autoRenewLockTask now st =
     (if now < totalAutoLockRenewDuration st \<and> continueExecution st then
        let h = nextHandle st
        in st\<lparr>renewTimer := Some h, scheduled := insert h (scheduled st), nextHandle := Suc h\<rparr>
      else st)"

text \<open>\<open>clearTimerAndStopExecution\<close>.\<close>

definition clearTimerAndStopExecution :: "MessageReceiver \<Rightarrow> message_state \<Rightarrow> message_state" where
  "clearTimerAndStopExecution r st =
     (if autoRenewLock r then
        st\<lparr>continueExecution := False,
           scheduled := (case renewTimer st of
                           None \<Rightarrow> scheduled st
                         | Some h \<Rightarrow> scheduled st - {h}),
           actions := actions st @ [ClearTimeout (renewTimer st)]\<rparr>
      else st)"

text \<open>
  The start of \<open>_onAmqpMessage\<close> at the time \<open>now\<close>, up to the call of the application's
  message handler.
\<close>

definition onAmqpMessage :: "MessageReceiver \<Rightarrow> int \<Rightarrow> message_state" where
  "onAmqpMessage r now =
     (let st = \<lparr>renewTimer = None, continueExecution = False, totalAutoLockRenewDuration = 0,
                scheduled = {}, nextHandle = 0, renewing = False, phase = Handling,
                actions = []\<rparr>
      in if autoRenewLock r then
           autoRenewLockTask now
             (st\<lparr>continueExecution := True,
                 totalAutoLockRenewDuration := now + maxAutoRenewDurationInSeconds r * 1000\<rparr>)
         else st)"

text \<open>
  The events: a pending timeout expires; the awaited \<open>renewLock\<close> succeeds (at a time) or
  fails; the promise of the message handler is resolved or rejected; the promise of
  \<open>complete()\<close> or \<open>abandon()\<close> is resolved or rejected.
\<close>

datatype message_event =
  TimerFired nat
| RenewLockResolved int
| RenewLockRejected AmqpError
| HandlerResolved
| HandlerRejected AmqpError
| SettlementResolved
| SettlementRejected AmqpError

text \<open>
  One step of \<open>_onAmqpMessage\<close> and of the callback of its timeout. \<open>lockLost\<close> is the
  entry \<open>ConditionErrorNameMapper["com.microsoft:message-lock-lost"]\<close> of the library. An
  event that cannot happen in the state (a timeout that is not pending, the answer of a
  call that is not awaited) changes nothing.
\<close>

fun message_step ::
  "(AmqpError \<Rightarrow> MessagingError) \<Rightarrow> string \<Rightarrow> MessageReceiver \<Rightarrow> message_state \<Rightarrow>
     message_event \<Rightarrow> message_state" where
  "message_step translate lockLost r st (TimerFired h) =
     (if h \<in> scheduled st then
        st\<lparr>scheduled := scheduled st - {h}, renewing := True,
           actions := actions st @ [RenewLock]\<rparr>
      else st)"
| "message_step translate lockLost r st (RenewLockResolved now) =
     (if renewing st then autoRenewLockTask now (st\<lparr>renewing := False\<rparr>) else st)"
| "message_step translate lockLost r st (RenewLockRejected err) =
     (if renewing st then
        st\<lparr>renewing := False, actions := actions st @ [OnRenewError err]\<rparr>
      else st)"
| "message_step translate lockLost r st HandlerResolved =
     (if phase st = Handling then
        let st1 = clearTimerAndStopExecution r st
        in if autoComplete r \<and> receiveMode r = peekLock then
             st1\<lparr>phase := Completing, actions := actions st1 @ [Complete]\<rparr>
           else st1\<lparr>phase := Done\<rparr>
      else st)"
| "message_step translate lockLost r st (HandlerRejected err) =
     (if phase st = Handling then
        let st1 = clearTimerAndStopExecution r st;
            error = translate err
        in if err_name error \<noteq> lockLost \<and> receiveMode r = peekLock then
             st1\<lparr>phase := Abandoning, actions := actions st1 @ [Abandon]\<rparr>
           else st1\<lparr>phase := Done\<rparr>
      else st)"
| "message_step translate lockLost r st SettlementResolved =
     (if phase st = Completing \<or> phase st = Abandoning then st\<lparr>phase := Done\<rparr> else st)"
| "message_step translate lockLost r st (SettlementRejected err) =
     (if phase st = Completing \<or> phase st = Abandoning then
        st\<lparr>phase := Done, actions := actions st @ [OnError (translate err)]\<rparr>
      else st)"

definition message_run ::
  "(AmqpError \<Rightarrow> MessagingError) \<Rightarrow> string \<Rightarrow> MessageReceiver \<Rightarrow> message_state \<Rightarrow>
     message_event list \<Rightarrow> message_state" where
  "message_run translate lockLost r st evs = foldl (message_step translate lockLost r) st evs"

text \<open>
  What holds of the closure at every moment: while a renewal is awaited no timeout is
  pending; a pending timeout is the one the variable \<open>timer\<close> holds; once
  \<open>continueExecution\<close> is off no timeout is pending; it is off once the handler is done,
  and without auto-renew nothing is ever started.
\<close>

definition renewal_inv :: "MessageReceiver \<Rightarrow> message_state \<Rightarrow> bool" where
  "renewal_inv r st =
     ((renewing st \<longrightarrow> scheduled st = {}) \<and>
      (\<forall>h \<in> scheduled st. renewTimer st = Some h) \<and>
      (\<not> continueExecution st \<longrightarrow> scheduled st = {}) \<and>
      (phase st \<noteq> Handling \<longrightarrow> \<not> continueExecution st) \<and>
      (phase st = Handling \<longrightarrow> Complete \<notin> set (actions st) \<and> Abandon \<notin> set (actions st)) \<and>
      (\<not> autoRenewLock r \<longrightarrow> \<not> continueExecution st \<and> \<not> renewing st))"

subsection \<open>Concrete inputs\<close>

text \<open>A streaming receiver with the defaults: peek-lock, auto-renew for 300 seconds.\<close>

definition default_receiver :: MessageReceiver where
  "default_receiver = new_MessageReceiver empty_context streaming default_options"

definition lock_lost :: AmqpError where
  "lock_lost = \<lparr>condition = Some ''com.microsoft:message-lock-lost'', description = None\<rparr>"

text \<open>The handler is done and nothing of the renewal is left to run.\<close>

definition handled :: "message_state \<Rightarrow> bool" where
  "handled st = (phase st \<noteq> Handling \<and> scheduled st = {} \<and> \<not> continueExecution st)"

fun is_error_callback :: "action \<Rightarrow> bool" where
  "is_error_callback (OnRenewError e) = True"
| "is_error_callback (OnError e) = True"
| "is_error_callback a = False"

fun is_renew_error :: "action \<Rightarrow> bool" where
  "is_renew_error (OnRenewError e) = True"
| "is_renew_error a = False"

section \<open>Properties of the settlement protocol\<close>

text \<open>
  C7: a call of \<open>settleMessage\<close> whose disposition kind is not one of complete, abandon,
  defer, deadletter rejects its promise at once, with the error naming the operation: no
  disposition primitive is called, no record enters the disposition map and no timeout
  is started.
\<close>

theorem settleMessage_unrecognized_kind:
  assumes "operation \<notin> {''complete'', ''abandon'', ''defer'', ''deadletter''}"
  shows "fst (settleMessage st d operation options) = nextPromise st
    \<and> settlements (snd (settleMessage st d operation options)) =
        settlements st @
          [(nextPromise st, Rejected (Error (invalid_operation_message operation)))]
    \<and> frames (snd (settleMessage st d operation options)) = frames st
    \<and> deliveryDispositionMap (snd (settleMessage st d operation options)) =
        deliveryDispositionMap st
    \<and> timers (snd (settleMessage st d operation options)) = timers st
    \<and> nextTimer (snd (settleMessage st d operation options)) = nextTimer st"
  using assms by (simp add: settleMessage_def valid_operation_def Let_def)

theorem settleMessage_unrecognized_kind_witness:
  "''renew'' \<notin> {''complete'', ''abandon'', ''defer'', ''deadletter''}
   \<and> fst (settleMessage init_settle_state delivery7 ''renew'' no_options) = 0
   \<and> settlements (snd (settleMessage init_settle_state delivery7 ''renew'' no_options)) =
       [(0, Rejected (Error ''operation: 'renew' is not a valid operation.''))]
   \<and> frames (snd (settleMessage init_settle_state delivery7 ''renew'' no_options)) = []
   \<and> timers (snd (settleMessage init_settle_state delivery7 ''renew'' no_options)) = Map.empty
   \<and> deliveryDispositionMap
        (snd (settleMessage init_settle_state delivery7 ''renew'' no_options)) = Map.empty"
  using settleMessage_unrecognized_kind [of "''renew''" init_settle_state delivery7 no_options]
  by (simp add: init_settle_state_def invalid_operation_message_def)

subsection \<open>A second settlement of the same delivery\<close>

text \<open>
  C1, as stated, fails: \<open>settleMessage\<close> does not look at the disposition map before it
  writes to it. After two calls for delivery 7 the second call was not rejected (no promise
  was settled), it got a promise of its own with a record of its own, and the transport was
  asked twice to accept the delivery.
\<close>

theorem second_settleMessage_counterexample:
  "deliveryDispositionMap
     (run translate0 init_settle_state [Settle delivery7 ''complete'' no_options]) 7 =
     Some \<lparr>promise = 0, timer = 0\<rparr>
   \<and> fst (settleMessage
          (run translate0 init_settle_state [Settle delivery7 ''complete'' no_options])
          delivery7 ''complete'' no_options) = 1
   \<and> deliveryDispositionMap (run translate0 init_settle_state settled_twice) 7 =
       Some \<lparr>promise = 1, timer = 1\<rparr>
   \<and> settlements (run translate0 init_settle_state settled_twice) = []
   \<and> frames (run translate0 init_settle_state settled_twice) = [Accept 7, Accept 7]"
  by (simp add: settled_twice_def run_def settleMessage_def init_settle_state_def Let_def
      valid_operation_def disposition_def delivery7_def)

lemma fresh_init: "fresh init_settle_state"
  by (simp add: fresh_def init_settle_state_def)

lemma fresh_settleMessage: "fresh st \<Longrightarrow> fresh (snd (settleMessage st d operation options))"
  unfolding fresh_def settleMessage_def Let_def
  by (auto simp: less_Suc_eq split: if_splits)

lemma fresh_timeoutExpired: "fresh st \<Longrightarrow> fresh (timeoutExpired st t)"
  unfolding fresh_def timeoutExpired_def
  by (auto split: option.splits if_splits)

lemma fresh_onSettled: "fresh st \<Longrightarrow> fresh (onSettled translate st context)"
  unfolding fresh_def onSettled_def clearTimeout_def Let_def
  by (auto split: option.splits if_splits)

lemma fresh_step: "fresh st \<Longrightarrow> fresh (step translate st ev)"
  by (cases ev) (simp_all add: fresh_settleMessage fresh_timeoutExpired fresh_onSettled)

lemma fresh_run: "fresh st \<Longrightarrow> fresh (run translate st evs)"
  unfolding run_def by (induction evs arbitrary: st) (simp_all add: fresh_step)

text \<open>
  C1, amended: in every state the receiver can reach, the disposition map holds at most
  one record per delivery identifier, and a call of \<open>settleMessage\<close> with a recognized
  kind for a delivery that already has a pending record is not rejected: it puts a new
  record in the place of the pending one, leaves the records of all other deliveries as
  they are, and calls exactly one further disposition primitive, for that delivery. The
  record is new in both parts: its promise is not the pending one's and was never
  settled, its timeout is not the pending one's, its handle was not in use, and after the
  call that timeout is pending for the delivery and the new promise.
\<close>

theorem settleMessage_replaces_record:
  assumes "operation \<in> {''complete'', ''abandon'', ''defer'', ''deadletter''}"
    and "st = run translate init_settle_state history"
    and "deliveryDispositionMap st (delivery_id d) = Some pending"
  shows "fst (settleMessage st d operation options) = nextPromise st
    \<and> promise pending \<noteq> nextPromise st
    \<and> timer pending \<noteq> nextTimer st
    \<and> outcomes (nextPromise st) st = []
    \<and> timers st (nextTimer st) = None
    \<and> deliveryDispositionMap (snd (settleMessage st d operation options)) =
        (deliveryDispositionMap st)
          (delivery_id d \<mapsto> \<lparr>promise = nextPromise st, timer = nextTimer st\<rparr>)
    \<and> timers (snd (settleMessage st d operation options)) (nextTimer st) =
        Some (delivery_id d, nextPromise st)
    \<and> settlements (snd (settleMessage st d operation options)) = settlements st
    \<and> frames (snd (settleMessage st d operation options)) =
        frames st @ disposition d operation options
    \<and> map frame_delivery (disposition d operation options) = [delivery_id d]"
proof -
  have f: "fresh st"
    unfolding assms(2) by (rule fresh_run [OF fresh_init])
  have v: "valid_operation operation"
    using assms(1) by (simp add: valid_operation_def)
  from f assms(3) have "promise pending < nextPromise st \<and> timer pending < nextTimer st"
    unfolding fresh_def by blast
  then have 1: "promise pending \<noteq> nextPromise st" "timer pending \<noteq> nextTimer st"
    by simp_all
  have "\<forall>c \<in> set (settlements st). fst c \<noteq> nextPromise st"
    using f by (auto simp: fresh_def)
  then have 2: "outcomes (nextPromise st) st = []"
    by (auto simp: outcomes_def filter_empty_conv)
  have 3: "timers st (nextTimer st) = None"
  proof (cases "timers st (nextTimer st)")
    case None
    then show ?thesis .
  next
    case (Some a)
    then have "timers st (nextTimer st) = Some (fst a, snd a)" by simp
    with f have "nextTimer st < nextTimer st" unfolding fresh_def by blast
    then show ?thesis by simp
  qed
  have 4: "fst (settleMessage st d operation options) = nextPromise st"
    "deliveryDispositionMap (snd (settleMessage st d operation options)) =
        (deliveryDispositionMap st)
          (delivery_id d \<mapsto> \<lparr>promise = nextPromise st, timer = nextTimer st\<rparr>)"
    "timers (snd (settleMessage st d operation options)) (nextTimer st) =
        Some (delivery_id d, nextPromise st)"
    "settlements (snd (settleMessage st d operation options)) = settlements st"
    "frames (snd (settleMessage st d operation options)) =
        frames st @ disposition d operation options"
    using v by (simp_all add: settleMessage_def Let_def)
  have 5: "map frame_delivery (disposition d operation options) = [delivery_id d]"
    using assms(1) by (auto simp: disposition_def)
  from 1 2 3 4 5 show ?thesis by (intro conjI)
qed

theorem settleMessage_replaces_record_witness:
  "''abandon'' \<in> {''complete'', ''abandon'', ''defer'', ''deadletter''}
   \<and> deliveryDispositionMap
        (run translate0 init_settle_state [Settle delivery7 ''complete'' no_options])
        (delivery_id delivery7) = Some \<lparr>promise = 0, timer = 0\<rparr>
   \<and> deliveryDispositionMap
        (run translate0 init_settle_state
           [Settle delivery7 ''complete'' no_options, Settle delivery7 ''abandon'' no_options])
        7 = Some \<lparr>promise = 1, timer = 1\<rparr>
   \<and> timers
        (run translate0 init_settle_state
           [Settle delivery7 ''complete'' no_options, Settle delivery7 ''abandon'' no_options])
        1 = Some (7, 1)
   \<and> frames
        (run translate0 init_settle_state
           [Settle delivery7 ''complete'' no_options, Settle delivery7 ''abandon'' no_options]) =
       [Accept 7, Modified 7 False None]"
proof -
  let ?s = "run translate0 init_settle_state [Settle delivery7 ''complete'' no_options]"
  have h1: "''abandon'' \<in> {''complete'', ''abandon'', ''defer'', ''deadletter''}" by simp
  have h2: "deliveryDispositionMap ?s (delivery_id delivery7) = Some \<lparr>promise = 0, timer = 0\<rparr>"
    by (simp add: run_def settleMessage_def init_settle_state_def Let_def valid_operation_def)
  have s: "nextPromise ?s = 1" "nextTimer ?s = 1" "frames ?s = [Accept 7]"
    by (simp_all add: run_def settleMessage_def init_settle_state_def Let_def
        valid_operation_def disposition_def delivery7_def)
  have r: "run translate0 init_settle_state
           [Settle delivery7 ''complete'' no_options, Settle delivery7 ''abandon'' no_options] =
      snd (settleMessage ?s delivery7 ''abandon'' no_options)"
    by (simp add: run_def)
  have d: "disposition delivery7 ''abandon'' no_options = [Modified 7 False None]"
    by (simp add: disposition_def delivery7_def no_options_def)
  note main = settleMessage_replaces_record [OF h1 refl h2, of no_options, unfolded s d]
  from main have m: "deliveryDispositionMap (snd (settleMessage ?s delivery7 ''abandon'' no_options)) 7 =
      Some \<lparr>promise = 1, timer = 1\<rparr>"
    by (simp add: delivery7_def)
  from main have t: "timers (snd (settleMessage ?s delivery7 ''abandon'' no_options)) 1 =
      Some (7, 1)"
    by (simp add: delivery7_def)
  from main have fr: "frames (snd (settleMessage ?s delivery7 ''abandon'' no_options)) =
      [Accept 7, Modified 7 False None]"
    by simp
  show ?thesis
    using h1 h2 m t fr unfolding r by (intro conjI)
qed

subsection \<open>Acknowledgement and timeout\<close>

lemma outcomes_append:
  "outcomes p (st\<lparr>settlements := settlements st @ [(q, oc)]\<rparr>) =
     outcomes p st @ (if q = p then [oc] else [])"
  by (simp add: outcomes_def)

lemma outstanding_settleMessage:
  assumes "fresh st" "valid_operation operation" "no_timeout_for (delivery_id d) st"
  shows "outstanding (delivery_id d) (nextPromise st) (nextTimer st)
           (snd (settleMessage st d operation options))"
proof -
  have "\<forall>c \<in> set (settlements st). fst c \<noteq> nextPromise st"
    using assms(1) by (auto simp: fresh_def)
  then have "outcomes (nextPromise st) st = []"
    by (auto simp: outcomes_def filter_empty_conv)
  moreover have "j \<noteq> delivery_id d" if "timers st t = Some (j, q)" for t j q
  proof -
    from that assms(1) have "t < nextTimer st" by (auto simp: fresh_def)
    with assms(3) that show ?thesis by (auto simp: no_timeout_for_def)
  qed
  ultimately show ?thesis
    using assms(1,2) unfolding outstanding_def fresh_def settleMessage_def Let_def
    by (auto simp: outcomes_def split: if_splits) (metis less_irrefl)+
qed

lemma outstanding_settle_other:
  assumes "outstanding i p t st" "delivery_id d \<noteq> i"
  shows "outstanding i p t (snd (settleMessage st d operation options))"
  using assms unfolding outstanding_def settleMessage_def Let_def
  by (auto simp: outcomes_def split: if_splits)

lemma outstanding_timeout_other:
  assumes "outstanding i p t st" "t' \<noteq> t"
  shows "outstanding i p t (timeoutExpired st t')"
  using assms unfolding outstanding_def timeoutExpired_def
  by (auto simp: outcomes_def split: option.splits if_splits)

lemma outstanding_onSettled_other:
  assumes "outstanding i p t st" "foreign i t (Settled context)"
  shows "outstanding i p t (onSettled translate st context)"
  using assms unfolding outstanding_def onSettled_def clearTimeout_def Let_def
  by (auto simp: outcomes_def split: option.splits if_splits)

lemma outstanding_step:
  "outstanding i p t st \<Longrightarrow> foreign i t ev \<Longrightarrow> outstanding i p t (step translate st ev)"
  by (cases ev)
    (simp_all add: outstanding_settle_other outstanding_timeout_other
       outstanding_onSettled_other del: foreign.simps(2))

lemma outstanding_run:
  "outstanding i p t st \<Longrightarrow> \<forall>ev \<in> set evs. foreign i t ev \<Longrightarrow>
     outstanding i p t (run translate st evs)"
  unfolding run_def by (induction evs arbitrary: st) (simp_all add: outstanding_step)

lemma outstanding_acknowledged:
  assumes "outstanding i p t st" "delivery context = Some a" "delivery_id a = i"
    "remote_settled a"
  shows "onSettled translate st context =
           st\<lparr>timers := (timers st)(t := None),
              deliveryDispositionMap := (deliveryDispositionMap st)(i := None),
              settlements := settlements st @
                [(p, case error_of_state (remote_state a) of
                       None \<Rightarrow> Resolved
                     | Some e \<Rightarrow> Rejected (Translated (translate e)))]\<rparr>"
  using assms unfolding outstanding_def onSettled_def clearTimeout_def Let_def
  by (simp split: option.splits)

lemma outstanding_expired:
  assumes "outstanding i p t st"
  shows "timeoutExpired st t =
           st\<lparr>timers := (timers st)(t := None),
              deliveryDispositionMap := (deliveryDispositionMap st)(i := None),
              settlements := settlements st @ [(p, Resolved)]\<rparr>"
  using assms unfolding outstanding_def timeoutExpired_def by simp

lemma outstanding_finished:
  assumes "outstanding i p t st"
  shows "finished p
           (st\<lparr>timers := (timers st)(t := None),
               deliveryDispositionMap := (deliveryDispositionMap st)(i := None),
               settlements := settlements st @ [(p, oc)]\<rparr>)"
  using assms unfolding outstanding_def finished_def
  by (auto split: if_splits)

lemma outstanding_outcomes:
  assumes "outstanding i p t st"
  shows "outcomes p
           (st\<lparr>timers := (timers st)(t := None),
               deliveryDispositionMap := (deliveryDispositionMap st)(i := None),
               settlements := settlements st @ [(p, oc)]\<rparr>) = [oc]"
  using assms unfolding outstanding_def by (simp add: outcomes_def)

lemma finished_settleMessage:
  assumes "finished p st"
  shows "finished p (snd (settleMessage st d operation options)) \<and>
         outcomes p (snd (settleMessage st d operation options)) = outcomes p st"
  using assms unfolding finished_def settleMessage_def Let_def
  by (auto simp: outcomes_def split: if_splits)

lemma finished_onSettled:
  assumes "finished p st"
  shows "finished p (onSettled translate st context) \<and>
         outcomes p (onSettled translate st context) = outcomes p st"
  using assms unfolding finished_def onSettled_def clearTimeout_def Let_def
  by (auto simp: outcomes_def split: option.splits if_splits)

lemma finished_timeoutExpired:
  assumes "finished p st"
  shows "finished p (timeoutExpired st t) \<and>
         outcomes p (timeoutExpired st t) = outcomes p st"
  using assms unfolding finished_def timeoutExpired_def
  by (auto simp: outcomes_def split: option.splits if_splits)

lemma finished_step:
  assumes "finished p st"
  shows "finished p (step translate st ev) \<and> outcomes p (step translate st ev) = outcomes p st"
  using assms
  by (cases ev)
    (simp_all add: finished_settleMessage finished_onSettled finished_timeoutExpired)

lemma finished_run:
  "finished p st \<Longrightarrow> outcomes p (run translate st evs) = outcomes p st"
  unfolding run_def
proof (induction evs arbitrary: st)
  case Nil
  then show ?case by simp
next
  case (Cons ev evs)
  from finished_step [OF Cons.prems, of translate ev]
  have f: "finished p (step translate st ev)"
    and o: "outcomes p (step translate st ev) = outcomes p st" by simp_all
  from Cons.IH [OF f] o show ?case by simp
qed

text \<open>
  C3, as stated, fails for overlapping calls: after two calls of \<open>settleMessage\<close> for
  delivery 7, an acknowledgement that carries an error arrives while the timeout of the
  first call is still pending; the promise of the first call is not settled by it, and
  resolves successfully when its timeout expires.
\<close>

theorem overlapping_settlement_counterexample:
  "timers (run translate0 init_settle_state (settled_twice @ [Settled rejected7])) 0 =
     Some (7, 0)
   \<and> outcomes 0 (run translate0 init_settle_state (settled_twice @ [Settled rejected7])) = []
   \<and> outcomes 0
       (run translate0 init_settle_state (settled_twice @ [Settled rejected7, Timeout 0])) =
       [Resolved]"
  by (simp add: settled_twice_def run_def settleMessage_def init_settle_state_def Let_def
      valid_operation_def disposition_def delivery7_def onSettled_def rejected7_def
      clearTimeout_def timeoutExpired_def outcomes_def error_of_state_def internal_error_def
      truthy_def)

text \<open>
  C3, amended: take any state the receiver can reach, in which no timeout of an earlier
  call for the delivery is pending, and a call of \<open>settleMessage\<close> with a recognized kind;
  let any events follow that are not a further \<open>settleMessage\<close> for the delivery, not an
  acknowledgement for it and not the expiry of its timeout. Until then the promise is
  pending. If the acknowledgement then arrives, the promise is resolved when the remote
  state carries no error (no error with a condition or a description) and rejected with
  the translated error otherwise, the record is removed and the timeout is cancelled. If
  instead the timeout expires, the promise is resolved and the record is removed. In both
  cases the promise was settled once, and whatever events follow, it is never settled
  again.
\<close>

theorem settleMessage_settled_once:
  assumes op: "operation \<in> {''complete'', ''abandon'', ''defer'', ''deadletter''}"
    and st: "st = run translate init_settle_state history"
    and alone: "no_timeout_for (delivery_id d) st"
    and evs: "\<forall>ev \<in> set evs. foreign (delivery_id d) (nextTimer st) ev"
    and s1: "s1 = after_settle translate st d operation options evs"
    and ack: "delivery context = Some a" "delivery_id a = delivery_id d" "remote_settled a"
  shows "fst (settleMessage st d operation options) = nextPromise st
    \<and> outcomes (nextPromise st) s1 = []
    \<and> outcomes (nextPromise st) (onSettled translate s1 context) =
        [(case error_of_state (remote_state a) of
           None \<Rightarrow> Resolved
         | Some e \<Rightarrow> Rejected (Translated (translate e)))]
    \<and> deliveryDispositionMap (onSettled translate s1 context) (delivery_id d) = None
    \<and> timers (onSettled translate s1 context) (nextTimer st) = None
    \<and> (\<forall>later. outcomes (nextPromise st) (run translate (onSettled translate s1 context) later) =
          [(case error_of_state (remote_state a) of
           None \<Rightarrow> Resolved
         | Some e \<Rightarrow> Rejected (Translated (translate e)))])
    \<and> outcomes (nextPromise st) (timeoutExpired s1 (nextTimer st)) = [Resolved]
    \<and> deliveryDispositionMap (timeoutExpired s1 (nextTimer st)) (delivery_id d) = None
    \<and> timers (timeoutExpired s1 (nextTimer st)) (nextTimer st) = None
    \<and> (\<forall>later. outcomes (nextPromise st)
          (run translate (timeoutExpired s1 (nextTimer st)) later) = [Resolved])"
proof -
  let ?i = "delivery_id d" and ?p = "nextPromise st" and ?t = "nextTimer st"
  have "fresh st"
    unfolding st by (rule fresh_run [OF fresh_init])
  moreover have v: "valid_operation operation"
    using op by (simp add: valid_operation_def)
  ultimately have "outstanding ?i ?p ?t (snd (settleMessage st d operation options))"
    using alone by (simp add: outstanding_settleMessage)
  then have out: "outstanding ?i ?p ?t s1"
    unfolding s1 after_settle_def using evs by (rule outstanding_run)
  have p: "fst (settleMessage st d operation options) = ?p"
    using v by (simp add: settleMessage_def Let_def)
  have pending: "outcomes ?p s1 = []"
    using out by (simp add: outstanding_def)
  note a = outstanding_acknowledged [OF out ack(1) ack(2) ack(3), of translate]
  note e = outstanding_expired [OF out]
  have a1: "outcomes ?p (onSettled translate s1 context) = [(case error_of_state (remote_state a) of
           None \<Rightarrow> Resolved
         | Some e \<Rightarrow> Rejected (Translated (translate e)))]"
    unfolding a by (rule outstanding_outcomes [OF out])
  have a2: "deliveryDispositionMap (onSettled translate s1 context) ?i = None"
    and a3: "timers (onSettled translate s1 context) ?t = None"
    unfolding a by simp_all
  have "finished ?p (onSettled translate s1 context)"
    unfolding a by (rule outstanding_finished [OF out])
  then have a4: "outcomes ?p (run translate (onSettled translate s1 context) later) =
      [(case error_of_state (remote_state a) of
           None \<Rightarrow> Resolved
         | Some e \<Rightarrow> Rejected (Translated (translate e)))]" for later
    using a1 by (simp add: finished_run)
  have e1: "outcomes ?p (timeoutExpired s1 ?t) = [Resolved]"
    unfolding e by (rule outstanding_outcomes [OF out])
  have e2: "deliveryDispositionMap (timeoutExpired s1 ?t) ?i = None"
    and e3: "timers (timeoutExpired s1 ?t) ?t = None"
    unfolding e by simp_all
  have "finished ?p (timeoutExpired s1 ?t)"
    unfolding e by (rule outstanding_finished [OF out])
  then have e4: "outcomes ?p (run translate (timeoutExpired s1 ?t) later) = [Resolved]" for later
    using e1 by (simp add: finished_run)
  from p pending a1 a2 a3 a4 e1 e2 e3 e4 show ?thesis by blast
qed

theorem settleMessage_settled_once_witness:
  "''complete'' \<in> {''complete'', ''abandon'', ''defer'', ''deadletter''}
   \<and> no_timeout_for (delivery_id delivery7) (run translate0 init_settle_state [])
   \<and> foreign (delivery_id delivery7) (nextTimer (run translate0 init_settle_state []))
         (Settle delivery8 ''abandon'' no_options)
   \<and> delivery rejected7 \<noteq> None
   \<and> outcomes 0
       (run translate0 init_settle_state
          [Settle delivery7 ''complete'' no_options, Settle delivery8 ''abandon'' no_options,
           Settled rejected7]) =
       [Rejected (Translated \<lparr>err_name = ''amqp:internal-error'', retryable = False\<rparr>)]
   \<and> outcomes 0
       (run translate0 init_settle_state
          [Settle delivery7 ''complete'' no_options, Settle delivery8 ''abandon'' no_options,
           Timeout 0, Settled rejected7]) = [Resolved]"
proof -
  let ?st = "run translate0 init_settle_state []"
  let ?a = "\<lparr>delivery_id = 7, remote_state = Some \<lparr>state_error = Some internal_error\<rparr>,
             remote_settled = True\<rparr>"
  have st0: "?st = init_settle_state" by (simp add: run_def)
  have h1: "''complete'' \<in> {''complete'', ''abandon'', ''defer'', ''deadletter''}" by simp
  have h2: "no_timeout_for (delivery_id delivery7) ?st"
    by (simp add: no_timeout_for_def run_def init_settle_state_def)
  have h3: "\<forall>ev \<in> set [Settle delivery8 ''abandon'' no_options].
      foreign (delivery_id delivery7) (nextTimer ?st) ev"
    by (simp add: delivery7_def delivery8_def)
  have h4: "delivery rejected7 = Some ?a" by (simp add: rejected7_def)
  have ack: "(case error_of_state (remote_state ?a) of None \<Rightarrow> Resolved
        | Some e \<Rightarrow> Rejected (Translated (translate0 e))) =
      Rejected (Translated \<lparr>err_name = ''amqp:internal-error'', retryable = False\<rparr>)"
    by (simp add: error_of_state_def internal_error_def truthy_def
        translate0_def)
  have h5: "delivery_id ?a = delivery_id delivery7" by (simp add: delivery7_def)
  have h6: "remote_settled ?a" by simp
  note main = settleMessage_settled_once [OF h1 refl h2 h3 refl h4 h5 h6,
      where options = no_options]
  have np: "nextPromise ?st = 0" "nextTimer ?st = 0"
    by (simp_all add: run_def init_settle_state_def)
  have s1: "onSettled translate0
       (after_settle translate0 ?st delivery7 ''complete'' no_options
          [Settle delivery8 ''abandon'' no_options]) rejected7 =
     run translate0 init_settle_state
          [Settle delivery7 ''complete'' no_options, Settle delivery8 ''abandon'' no_options,
           Settled rejected7]"
    by (simp add: after_settle_def run_def)
  have s2: "run translate0 (timeoutExpired
       (after_settle translate0 ?st delivery7 ''complete'' no_options
          [Settle delivery8 ''abandon'' no_options]) 0) [Settled rejected7] =
     run translate0 init_settle_state
          [Settle delivery7 ''complete'' no_options, Settle delivery8 ''abandon'' no_options,
           Timeout 0, Settled rejected7]"
    by (simp add: after_settle_def run_def)
  from main [unfolded np] have r1: "outcomes 0 (onSettled translate0
       (after_settle translate0 ?st delivery7 ''complete'' no_options
          [Settle delivery8 ''abandon'' no_options]) rejected7) =
      [(case error_of_state (remote_state ?a) of None \<Rightarrow> Resolved
        | Some e \<Rightarrow> Rejected (Translated (translate0 e)))]"
    by blast
  from main [unfolded np] have r2: "outcomes 0 (run translate0 (timeoutExpired
       (after_settle translate0 ?st delivery7 ''complete'' no_options
          [Settle delivery8 ''abandon'' no_options]) 0) [Settled rejected7]) =
      [Resolved]"
    by blast
  show ?thesis
    using h1 h2 h3 h4 r1 r2 unfolding s1 s2 ack by simp
qed

section \<open>Properties of the detach protocol\<close>

lemma shouldReopen_iff:
  "shouldReopen translate receiverError closeInitiated \<longleftrightarrow>
     \<not> closeInitiated \<and>
     (receiverError = None \<or> (\<exists>e. receiverError = Some e \<and> retryable (translate e)))"
  by (cases receiverError) (simp_all add: shouldReopen_def)

lemma effects_closeLink: "effects (closeLink w this l) = effects w"
  by (simp add: closeLink_def Let_def split: option.splits)

lemma effects_createReceiverOptions:
  "effects (snd (createReceiverOptions g w this b)) = effects w"
  by (simp add: createReceiverOptions_def Let_def)

lemma init_effects:
  "\<exists>es. effects (snd (init translate g w this (Some opts) env)) = effects w @ es
     \<and> set es \<subseteq> {NegotiateClaim this, CreateReceiver this opts, EnsureTokenRenewal this}
     \<and> length (filter is_negotiate es) \<le> 1"
  by (simp add: init_def init_failed_def Let_def split: option.splits)

lemma retry_from_effects:
  assumes "\<And>i w. \<exists>es. effects (snd (operation i w)) = effects w @ es
     \<and> set es \<subseteq> S \<and> length (filter is_negotiate es) \<le> 1"
  shows "\<exists>es. effects (snd (retry_from operation d n i lastError w)) = effects w @ es
     \<and> set es \<subseteq> insert (Delay d) S \<and> length (filter is_negotiate es) \<le> n"
proof (induction n arbitrary: i lastError w)
  case 0
  then show ?case by simp
next
  case (Suc n)
  obtain r w1 where op: "operation i w = (r, w1)" by (cases "operation i w")
  from assms [of i w] op obtain es where es: "effects w1 = effects w @ es" "set es \<subseteq> S"
    "length (filter is_negotiate es) \<le> 1" by auto
  show ?case
  proof (cases r)
    case (Inr v)
    with op es show ?thesis by auto
  next
    case (Inl err)
    show ?thesis
    proof (cases "retryable err")
      case False
      with Inl op es show ?thesis by auto
    next
      case True
      let ?w2 = "if n = 0 then w1 else w1\<lparr>effects := effects w1 @ [Delay d]\<rparr>"
      from Suc.IH [of "Suc i" "Some err" ?w2]
      obtain es2 where es2:
        "effects (snd (retry_from operation d n (Suc i) (Some err) ?w2)) = effects ?w2 @ es2"
        "set es2 \<subseteq> insert (Delay d) S" "length (filter is_negotiate es2) \<le> n" by blast
      have "effects (snd (retry_from operation d (Suc n) i lastError w)) =
          effects w @ (es @ (if n = 0 then [] else [Delay d]) @ es2)"
        using Inl True op es es2 by simp
      moreover have "set (es @ (if n = 0 then [] else [Delay d]) @ es2) \<subseteq> insert (Delay d) S"
        using es es2 by auto
      moreover have "length (filter is_negotiate (es @ (if n = 0 then [] else [Delay d]) @ es2))
          \<le> Suc n"
        using es es2 by simp
      ultimately show ?thesis by blast
    qed
  qed
qed

lemma retry_from_preserves:
  assumes "\<And>i w. f (snd (operation i w)) = f w"
    and "\<And>w es. f (w\<lparr>effects := es\<rparr>) = f w"
  shows "f (snd (retry_from operation d n i lastError w)) = f w"
proof (induction n arbitrary: i lastError w)
  case 0
  then show ?case by simp
next
  case (Suc n)
  obtain r w1 where op: "operation i w = (r, w1)" by (cases "operation i w")
  with assms(1) [of i w] have w1: "f w1 = f w" by simp
  show ?case
    using op w1 Suc.IH assms(2)
    by (cases r) (simp_all)
qed

lemma name_init:
  "name (receivers (snd (init translate g w this (Some opts) env)) r) = name (receivers w r)"
  by (simp add: init_def init_failed_def Let_def split: option.splits)

lemma name_closeLink: "name (receivers (closeLink w this l) r) = name (receivers w r)"
  by (simp add: closeLink_def Let_def split: option.splits)

lemma isOpen_closeLink:
  "\<not> isOpen (closeLink w this (receiver (receivers w this))) this"
  by (simp add: closeLink_def isOpen_def Let_def split: option.splits)

lemma isConnecting_closeLink:
  "isConnecting (receivers (closeLink w this l) r) = isConnecting (receivers w r)"
  by (simp add: closeLink_def Let_def split: option.splits)

lemma createReceiverOptions_newName:
  "createReceiverOptions g w this True =
     (\<lparr>options_name = g (entityPath (entityContext w)),
       autoaccept = False,
       rcv_settle_mode = (if receiveMode (receivers w this) = receiveAndDelete then 0 else 1),
       snd_settle_mode = (if receiveMode (receivers w this) = receiveAndDelete then 1 else 0),
       source_address = address (receivers w this),
       credit_window = maxConcurrentCalls (receivers w this)\<rparr>,
      w\<lparr>receivers := (receivers w)(this :=
          (receivers w this)\<lparr>name := g (entityPath (entityContext w))\<rparr>)\<rparr>)"
  by (simp add: createReceiverOptions_def Let_def)


lemma init_fails:
  assumes "idle w this" "establishment_error env = Some e"
  shows "fst (init translate g w this (Some opts) env) = Inl (translate e)
    \<and> idle (snd (init translate g w this (Some opts) env)) this"
  using assms
  by (auto simp: idle_def init_def init_failed_def establishment_error_def isOpen_def Let_def
      split: option.splits)

lemma idle_effects: "idle (w\<lparr>effects := es\<rparr>) this = idle w this"
  by (simp add: idle_def isOpen_def split: option.splits)

lemma retry_from_exhausted:
  assumes "idle w this"
    and "\<forall>j. i \<le> j \<and> j < i + n \<longrightarrow>
           (\<exists>e. establishment_error (envs j) = Some e \<and> retryable (translate e))"
  shows "fst (retry_from (\<lambda>i v. init translate g v this (Some opts) (envs i)) d n i lastError w) =
           Inl (if n = 0 then lastError
                else map_option translate (establishment_error (envs (i + n - 1))))"
  using assms
proof (induction n arbitrary: i lastError w)
  case 0
  then show ?case by simp
next
  case (Suc n)
  from Suc.prems(2) obtain e where e: "establishment_error (envs i) = Some e"
    "retryable (translate e)" by force
  obtain r w1 where op: "init translate g w this (Some opts) (envs i) = (r, w1)"
    by (cases "init translate g w this (Some opts) (envs i)")
  from init_fails [OF Suc.prems(1) e(1), of translate g opts] op
  have r: "r = Inl (translate e)" and w1: "idle w1 this" by simp_all
  let ?w2 = "if n = 0 then w1 else w1\<lparr>effects := effects w1 @ [Delay d]\<rparr>"
  have w2: "idle ?w2 this" using w1 by (simp add: idle_effects)
  have rest: "\<forall>j. Suc i \<le> j \<and> j < Suc i + n \<longrightarrow>
           (\<exists>e. establishment_error (envs j) = Some e \<and> retryable (translate e))"
    using Suc.prems(2) by simp
  from Suc.IH [OF w2 rest, of "Some (translate e)"]
  show ?case
    using op r e by (cases "n = 0") simp_all
qed


lemma detached_reopened:
  assumes "shouldReopen translate receiverError (wasCloseInitiated w this)"
  shows "detached translate g attempts w this receiverError envs =
     (let w1 = closeLink w this (receiver (receivers w this));
          options = fst (createReceiverOptions g w1 this True);
          w2 = snd (createReceiverOptions g w1 this True);
          result = retry_from (\<lambda>i v. init translate g v this (Some options) (envs i)) 15
                     attempts 0 None (w2\<lparr>effects := effects w2 @ [Retry attempts 15]\<rparr>)
      in case fst result of
           Inr u \<Rightarrow> snd result
         | Inl err \<Rightarrow>
             (snd result)\<lparr>effects := effects (snd result) @ [DetachedFailed this err]\<rparr>)"
  using assms
  by (simp add: detached_def retry_def Let_def split: prod.splits sum.splits)

lemma detached_reopened_effects:
  assumes "shouldReopen translate receiverError (wasCloseInitiated w this)"
  shows "\<exists>es. effects (detached translate g attempts w this receiverError envs) =
           effects w @ Retry attempts 15 # es
     \<and> set es \<subseteq> {Delay 15, NegotiateClaim this,
          CreateReceiver this
            (fst (createReceiverOptions g (closeLink w this (receiver (receivers w this)))
               this True)),
          EnsureTokenRenewal this} \<union> range (DetachedFailed this)
     \<and> length (filter is_negotiate es) \<le> attempts"
proof -
  let ?w1 = "closeLink w this (receiver (receivers w this))"
  let ?options = "fst (createReceiverOptions g ?w1 this True)"
  let ?w2 = "snd (createReceiverOptions g ?w1 this True)"
  let ?w3 = "?w2\<lparr>effects := effects ?w2 @ [Retry attempts 15]\<rparr>"
  let ?result = "retry_from (\<lambda>i v. init translate g v this (Some ?options) (envs i)) 15
                     attempts 0 None ?w3"
  have start: "effects ?w3 = effects w @ [Retry attempts 15]"
    by (simp add: effects_createReceiverOptions effects_closeLink)
  from retry_from_effects [of "\<lambda>i v. init translate g v this (Some ?options) (envs i)"
      "{NegotiateClaim this, CreateReceiver this ?options, EnsureTokenRenewal this}"
      15 attempts 0 None ?w3, OF init_effects]
  obtain es where es: "effects (snd ?result) = effects ?w3 @ es"
    "set es \<subseteq> {Delay 15, NegotiateClaim this, CreateReceiver this ?options,
       EnsureTokenRenewal this}"
    "length (filter is_negotiate es) \<le> attempts" by auto
  show ?thesis
  proof (cases "fst ?result")
    case (Inr u)
    then have "effects (detached translate g attempts w this receiverError envs) =
        effects w @ Retry attempts 15 # es"
      using es(1) start by (simp add: detached_reopened [OF assms] Let_def)
    with es(2,3) show ?thesis by auto
  next
    case (Inl err)
    then have "effects (detached translate g attempts w this receiverError envs) =
        effects w @ Retry attempts 15 # (es @ [DetachedFailed this err])"
      using es(1) start by (simp add: detached_reopened [OF assms] Let_def)
    moreover have "set (es @ [DetachedFailed this err]) \<subseteq>
        {Delay 15, NegotiateClaim this, CreateReceiver this ?options,
          EnsureTokenRenewal this} \<union> range (DetachedFailed this)"
      using es(2) by auto
    moreover have "length (filter is_negotiate (es @ [DetachedFailed this err])) \<le> attempts"
      using es(3) by simp
    ultimately show ?thesis by blast
  qed
qed








lemma init_fails_effects:
  assumes "idle w this" "establishment_error env = Some e"
  shows "\<exists>es. effects (snd (init translate g w this (Some opts) env)) = effects w @ es
    \<and> length (filter is_negotiate es) = 1"
  using assms
  by (auto simp: idle_def init_def init_failed_def establishment_error_def Let_def
      split: option.splits)

lemma retry_from_exhausted_effects:
  assumes "idle w this"
    and "\<forall>j. i \<le> j \<and> j < i + n \<longrightarrow>
           (\<exists>e. establishment_error (envs j) = Some e \<and> retryable (translate e))"
  shows "\<exists>es. effects (snd (retry_from (\<lambda>i v. init translate g v this (Some opts) (envs i))
             d n i lastError w)) = effects w @ es
    \<and> length (filter is_negotiate es) = n"
  using assms
proof (induction n arbitrary: i lastError w)
  case 0
  then show ?case by simp
next
  case (Suc n)
  from Suc.prems(2) obtain e where e: "establishment_error (envs i) = Some e"
    "retryable (translate e)" by force
  obtain r w1 where op: "init translate g w this (Some opts) (envs i) = (r, w1)"
    by (cases "init translate g w this (Some opts) (envs i)")
  from init_fails [OF Suc.prems(1) e(1), of translate g opts] op
  have r: "r = Inl (translate e)" and w1: "idle w1 this" by simp_all
  from init_fails_effects [OF Suc.prems(1) e(1), of translate g opts] op
  obtain es where es: "effects w1 = effects w @ es" "length (filter is_negotiate es) = 1"
    by auto
  let ?w2 = "if n = 0 then w1 else w1\<lparr>effects := effects w1 @ [Delay d]\<rparr>"
  have w2: "idle ?w2 this" using w1 by (simp add: idle_effects)
  have rest: "\<forall>j. Suc i \<le> j \<and> j < Suc i + n \<longrightarrow>
           (\<exists>e. establishment_error (envs j) = Some e \<and> retryable (translate e))"
    using Suc.prems(2) by simp
  from Suc.IH [OF w2 rest, of "Some (translate e)"]
  obtain es2 where es2: "effects (snd (retry_from
      (\<lambda>i v. init translate g v this (Some opts) (envs i)) d n (Suc i) (Some (translate e)) ?w2)) =
      effects ?w2 @ es2" "length (filter is_negotiate es2) = n" by blast
  have "effects (snd (retry_from (\<lambda>i v. init translate g v this (Some opts) (envs i))
             d (Suc n) i lastError w)) =
      effects w @ (es @ (if n = 0 then [] else [Delay d]) @ es2)"
    using op r e es es2 by simp
  moreover have "length (filter is_negotiate (es @ (if n = 0 then [] else [Delay d]) @ es2)) =
      Suc n"
    using es es2 by simp
  ultimately show ?case by blast
qed

lemma detached_name:
  assumes "shouldReopen translate receiverError (wasCloseInitiated w this)"
  shows "name (receivers (detached translate g attempts w this receiverError envs) this) =
           g (entityPath (entityContext w))"
proof -
  let ?w1 = "closeLink w this (receiver (receivers w this))"
  let ?options = "fst (createReceiverOptions g ?w1 this True)"
  let ?w2 = "snd (createReceiverOptions g ?w1 this True)"
  let ?w3 = "?w2\<lparr>effects := effects ?w2 @ [Retry attempts 15]\<rparr>"
  let ?result = "retry_from (\<lambda>i v. init translate g v this (Some ?options) (envs i)) 15
                     attempts 0 None ?w3"
  have "name (receivers (snd ?result) this) = name (receivers ?w3 this)"
    by (rule retry_from_preserves [where f = "\<lambda>v. name (receivers v this)"])
      (simp_all add: name_init)
  also have "\<dots> = g (entityPath (entityContext w))"
    by (simp add: createReceiverOptions_newName closeLink_def Let_def split: option.splits)
  finally show ?thesis
    by (simp add: detached_reopened [OF assms] Let_def split: sum.splits)
qed

lemma detached_exhausted:
  assumes re: "shouldReopen translate receiverError (wasCloseInitiated w this)"
    and pos: "0 < attempts"
    and nc: "\<not> isConnecting (receivers w this)"
    and fail: "\<forall>i<attempts. \<exists>e. establishment_error (envs i) = Some e \<and> retryable (translate e)"
  shows "last (new_effects w (detached translate g attempts w this receiverError envs)) =
           DetachedFailed this (map_option translate (establishment_error (envs (attempts - 1))))
    \<and> length (filter is_negotiate
         (new_effects w (detached translate g attempts w this receiverError envs))) = attempts"
proof -
  let ?w1 = "closeLink w this (receiver (receivers w this))"
  let ?options = "fst (createReceiverOptions g ?w1 this True)"
  let ?w2 = "snd (createReceiverOptions g ?w1 this True)"
  let ?w3 = "?w2\<lparr>effects := effects ?w2 @ [Retry attempts 15]\<rparr>"
  let ?result = "retry_from (\<lambda>i v. init translate g v this (Some ?options) (envs i)) 15
                     attempts 0 None ?w3"
  let ?err = "map_option translate (establishment_error (envs (attempts - 1)))"
  have "\<not> isOpen ?w1 this" by (rule isOpen_closeLink)
  then have "\<not> isOpen ?w3 this"
    by (simp add: createReceiverOptions_newName isOpen_def split: option.splits)
  moreover have "\<not> isConnecting (receivers ?w3 this)"
    using nc by (simp add: createReceiverOptions_newName isConnecting_closeLink)
  ultimately have idle: "idle ?w3 this" by (simp add: idle_def)
  have fail': "\<forall>j. 0 \<le> j \<and> j < 0 + attempts \<longrightarrow>
      (\<exists>e. establishment_error (envs j) = Some e \<and> retryable (translate e))"
    using fail by simp
  from retry_from_exhausted [OF idle fail', of g ?options 15 None] pos
  have res: "fst ?result = Inl ?err" by simp
  from retry_from_exhausted_effects [OF idle fail', of g ?options 15 None]
  obtain es where es: "effects (snd ?result) = effects ?w3 @ es"
    "length (filter is_negotiate es) = attempts" by blast
  have start: "effects ?w3 = effects w @ [Retry attempts 15]"
    by (simp add: effects_createReceiverOptions effects_closeLink)
  have "effects (detached translate g attempts w this receiverError envs) =
      effects w @ Retry attempts 15 # es @ [DetachedFailed this ?err]"
    using res es(1) start by (simp add: detached_reopened [OF re] Let_def)
  then have "new_effects w (detached translate g attempts w this receiverError envs) =
      Retry attempts 15 # es @ [DetachedFailed this ?err]"
    by (simp add: new_effects_def)
  with es(2) show ?thesis by simp
qed

text \<open>
  C8: when \<open>detached\<close> decides to reopen, the receiver takes the name \<open>getUniqueName\<close>
  gives, and every link creation that follows asks for a link of that name; the first
  thing asked is the retry function, with the attempt count of the library constant and a
  delay of 15 seconds; no more claim negotiations than that count take place and every
  delay is of 15 seconds. If there is at least one attempt, the receiver was not connecting
  and every attempt fails with a retryable error before a link exists, then exactly that
  many attempts are made and the error of the last one is what the retry function returns
  and \<open>detached\<close> hands to the error log, as its last effect.
\<close>

theorem detached_reopen_protocol:
  assumes "\<not> wasCloseInitiated w this"
    and "receiverError = None \<or> (\<exists>e. receiverError = Some e \<and> retryable (translate e))"
    and "w' = detached translate getUniqueName attempts w this receiverError envs"
  shows "name (receivers w' this) = getUniqueName (entityPath (entityContext w))
    \<and> (\<exists>es. new_effects w w' = Retry attempts 15 # es)
    \<and> (\<forall>r opts. CreateReceiver r opts \<in> set (new_effects w w') \<longrightarrow>
          r = this \<and> options_name opts = getUniqueName (entityPath (entityContext w)))
    \<and> length (filter is_negotiate (new_effects w w')) \<le> attempts
    \<and> (\<forall>d. Delay d \<in> set (new_effects w w') \<longrightarrow> d = 15)
    \<and> (0 < attempts \<and> \<not> isConnecting (receivers w this) \<and>
        (\<forall>i<attempts. \<exists>e. establishment_error (envs i) = Some e \<and> retryable (translate e))
        \<longrightarrow> last (new_effects w w') =
              DetachedFailed this
                (map_option translate (establishment_error (envs (attempts - 1))))
            \<and> length (filter is_negotiate (new_effects w w')) = attempts)"
proof -
  let ?options = "fst (createReceiverOptions getUniqueName
      (closeLink w this (receiver (receivers w this))) this True)"
  have re: "shouldReopen translate receiverError (wasCloseInitiated w this)"
    using assms(1,2) by (simp add: shouldReopen_iff)
  have n: "options_name ?options = getUniqueName (entityPath (entityContext w))"
    by (simp add: createReceiverOptions_newName closeLink_def Let_def split: option.splits)
  from detached_reopened_effects [OF re, of getUniqueName attempts envs]
  obtain es where "effects w' = effects w @ Retry attempts 15 # es"
    and sub: "set es \<subseteq> {Delay 15, NegotiateClaim this, CreateReceiver this ?options,
          EnsureTokenRenewal this} \<union> range (DetachedFailed this)"
    and le: "length (filter is_negotiate es) \<le> attempts"
    unfolding assms(3) by blast
  then have new: "new_effects w w' = Retry attempts 15 # es"
    by (simp add: new_effects_def)
  have 1: "name (receivers w' this) = getUniqueName (entityPath (entityContext w))"
    unfolding assms(3) by (rule detached_name [OF re])
  have 2: "\<exists>es. new_effects w w' = Retry attempts 15 # es"
    using new by simp
  have 3: "\<forall>r opts. CreateReceiver r opts \<in> set (new_effects w w') \<longrightarrow>
          r = this \<and> options_name opts = getUniqueName (entityPath (entityContext w))"
    using new sub n by auto
  have 4: "length (filter is_negotiate (new_effects w w')) \<le> attempts"
    using new le by simp
  have 5: "\<forall>d. Delay d \<in> set (new_effects w w') \<longrightarrow> d = 15"
    using new sub by auto
  have 6: "0 < attempts \<and> \<not> isConnecting (receivers w this) \<and>
        (\<forall>i<attempts. \<exists>e. establishment_error (envs i) = Some e \<and> retryable (translate e))
        \<longrightarrow> last (new_effects w w') =
              DetachedFailed this
                (map_option translate (establishment_error (envs (attempts - 1))))
            \<and> length (filter is_negotiate (new_effects w w')) = attempts"
    unfolding assms(3) using detached_exhausted [OF re] by blast
  from 1 2 3 4 5 6 show ?thesis by blast
qed

theorem detached_reopen_protocol_witness:
  "\<not> wasCloseInitiated streaming_world 0
   \<and> retryable (translate0 server_busy)
   \<and> \<not> isConnecting (receivers streaming_world 0)
   \<and> establishment_error (always_busy 0) = Some server_busy
   \<and> establishment_error (always_busy 1) = Some server_busy
   \<and> name (receivers
        (detached translate0 unique0 2 streaming_world 0 (Some server_busy) always_busy) 0) =
      ''queue-1''
   \<and> last (new_effects streaming_world
        (detached translate0 unique0 2 streaming_world 0 (Some server_busy) always_busy)) =
      DetachedFailed 0 (Some \<lparr>err_name = ''com.microsoft:server-busy'', retryable = True\<rparr>)
   \<and> length (filter is_negotiate (new_effects streaming_world
        (detached translate0 unique0 2 streaming_world 0 (Some server_busy) always_busy))) = 2"
proof -
  have h1: "\<not> wasCloseInitiated streaming_world 0"
    by (simp add: wasCloseInitiated_def streaming_world_def open_link_def)
  have h2: "retryable (translate0 server_busy)"
    by (simp add: translate0_def server_busy_def)
  have h3: "\<not> isConnecting (receivers streaming_world 0)"
    by (simp add: streaming_world_def new_MessageReceiver_def Let_def)
  have h4: "establishment_error (always_busy i) = Some server_busy" for i
    by (simp add: establishment_error_def always_busy_def)
  have h5: "\<forall>i<2. \<exists>e. establishment_error (always_busy i) = Some e \<and> retryable (translate0 e)"
    using h2 h4 by simp
  have h6: "Some server_busy = None \<or>
      (\<exists>e. Some server_busy = Some e \<and> retryable (translate0 e))"
    using h2 by simp
  have p: "entityPath (entityContext streaming_world) = ''queue''"
    by (simp add: streaming_world_def streaming_context_def)
  have t: "translate0 server_busy =
      \<lparr>err_name = ''com.microsoft:server-busy'', retryable = True\<rparr>"
    by (simp add: translate0_def server_busy_def)
  from detached_reopen_protocol [OF h1 h6 refl, of unique0 2 always_busy] h3 h5
  show ?thesis
    using h1 h2 h3 h4 by (simp add: p t unique0_def)
qed

section \<open>Properties of registration and close\<close>

lemma createReceiverOptions_keep:
  "createReceiverOptions g w this False =
     (fst (createReceiverOptions g w this False), w)"
  by (simp add: createReceiverOptions_def Let_def)

lemma init_established_context:
  assumes "idle w this" "negotiateClaim env = None" "createReceiver env = None"
  shows "entityContext (snd (init translate g w this options env)) =
     (if receiverType (receivers w this) = streaming \<and>
         streamingReceiver (entityContext w) = None then
        (entityContext w)\<lparr>streamingReceiver := Some this\<rparr>
      else if receiverType (receivers w this) = batching \<and>
         batchingReceiver (entityContext w) = None then
        (entityContext w)\<lparr>batchingReceiver := Some this\<rparr>
      else entityContext w)"
proof -
  obtain options1 where o: "(case options of
        None \<Rightarrow> createReceiverOptions g
          (w\<lparr>receivers := (receivers w)(this := (receivers w this)\<lparr>isConnecting := True\<rparr>),
             effects := effects w @ [NegotiateClaim this]\<rparr>) this False
      | Some given \<Rightarrow> (given,
          w\<lparr>receivers := (receivers w)(this := (receivers w this)\<lparr>isConnecting := True\<rparr>),
             effects := effects w @ [NegotiateClaim this]\<rparr>)) =
      (options1, w\<lparr>receivers := (receivers w)(this := (receivers w this)\<lparr>isConnecting := True\<rparr>),
             effects := effects w @ [NegotiateClaim this]\<rparr>)"
    by (cases options) (simp_all add: createReceiverOptions_def Let_def)
  show ?thesis
    using assms
    by (cases "ensureTokenRenewal env")
      (simp_all add: idle_def init_def init_failed_def o Let_def)
qed

lemma init_registers:
  assumes "idle w this" "negotiateClaim env = None" "createReceiver env = None"
    and "w' = snd (init translate g w this options env)"
    and "role = receiverType (receivers w this)"
  shows "slot role (entityContext w') =
           (if slot role (entityContext w) = None then Some this
            else slot role (entityContext w))
    \<and> slot (other_role role) (entityContext w') = slot (other_role role) (entityContext w)
    \<and> sender (entityContext w') = sender (entityContext w)
    \<and> entityPath (entityContext w') = entityPath (entityContext w)"
  unfolding assms(4,5) init_established_context [OF assms(1,2,3)]
  by (cases "receiverType (receivers w this)") simp_all

lemma deleteFromCache_clears:
  assumes "role = receiverType (receivers w this)"
  shows "slot role (entityContext (deleteFromCache w this)) = None
    \<and> slot (other_role role) (entityContext (deleteFromCache w this)) =
        slot (other_role role) (entityContext w)
    \<and> sender (entityContext (deleteFromCache w this)) = sender (entityContext w)
    \<and> entityPath (entityContext (deleteFromCache w this)) = entityPath (entityContext w)"
  using assms
  by (cases "receiverType (receivers w this)") (simp_all add: deleteFromCache_def Let_def)

lemma entityContext_closeLink: "entityContext (closeLink w this l) = entityContext w"
  by (simp add: closeLink_def Let_def split: option.splits)

lemma close_clears:
  assumes "role = receiverType (receivers w this)"
  shows "slot role (entityContext (close w this)) =
           (if receiver (receivers w this) = None then slot role (entityContext w) else None)
    \<and> slot (other_role role) (entityContext (close w this)) =
        slot (other_role role) (entityContext w)
    \<and> sender (entityContext (close w this)) = sender (entityContext w)"
  using deleteFromCache_clears [OF assms]
  by (simp add: close_def entityContext_closeLink split: option.splits)

text \<open>
  C9: when \<open>_init\<close> establishes the link of a receiver (it goes ahead, the claim is
  negotiated and the link is created), the slot of the receiver's role holds the receiver
  if it was empty and keeps what it held otherwise; \<open>_deleteFromCache\<close> empties the slot of
  the receiver's role; \<open>close()\<close> does so when the receiver has a link, and leaves the slot
  as it is otherwise. In each case the slot of the other role and the sender stay as they
  are.
\<close>

theorem registration_frame:
  assumes "role = receiverType (receivers w this)"
  shows "(idle w this \<and> negotiateClaim env = None \<and> createReceiver env = None \<longrightarrow>
       slot role (entityContext (snd (init translate g w this options env))) =
         (if slot role (entityContext w) = None then Some this
          else slot role (entityContext w))
       \<and> slot (other_role role) (entityContext (snd (init translate g w this options env))) =
           slot (other_role role) (entityContext w)
       \<and> sender (entityContext (snd (init translate g w this options env))) =
           sender (entityContext w))
    \<and> slot role (entityContext (deleteFromCache w this)) = None
    \<and> slot (other_role role) (entityContext (deleteFromCache w this)) =
        slot (other_role role) (entityContext w)
    \<and> sender (entityContext (deleteFromCache w this)) = sender (entityContext w)
    \<and> slot role (entityContext (close w this)) =
        (if receiver (receivers w this) = None then slot role (entityContext w) else None)
    \<and> slot (other_role role) (entityContext (close w this)) =
        slot (other_role role) (entityContext w)
    \<and> sender (entityContext (close w this)) = sender (entityContext w)"
  using init_registers [OF _ _ _ refl assms, of env translate g options]
    deleteFromCache_clears [OF assms] close_clears [OF assms]
  by simp

theorem registration_frame_witness:
  "streaming = receiverType (receivers fresh_world 0)
   \<and> idle fresh_world 0
   \<and> negotiateClaim (all_succeed 0) = None \<and> createReceiver (all_succeed 0) = None
   \<and> streamingReceiver (entityContext fresh_world) = None
   \<and> streamingReceiver
        (entityContext (snd (init translate0 unique0 fresh_world 0 None (all_succeed 0)))) =
       Some 0
   \<and> streaming = receiverType (receivers streaming_world 5)
   \<and> idle streaming_world 5
   \<and> streamingReceiver (entityContext streaming_world) = Some 0
   \<and> streamingReceiver
        (entityContext (snd (init translate0 unique0 streaming_world 5 None (all_succeed 0)))) =
       Some 0
   \<and> batchingReceiver
        (entityContext (snd (init translate0 unique0 streaming_world 5 None (all_succeed 0)))) =
       None
   \<and> streamingReceiver (entityContext (deleteFromCache streaming_world 5)) = None"
proof -
  have r1: "streaming = receiverType (receivers fresh_world 0)"
    by (simp add: fresh_world_def new_MessageReceiver_def Let_def)
  have r2: "streaming = receiverType (receivers streaming_world 5)"
    by (simp add: streaming_world_def new_MessageReceiver_def Let_def)
  have i1: "idle fresh_world 0"
    by (simp add: idle_def isOpen_def fresh_world_def new_MessageReceiver_def Let_def)
  have i2: "idle streaming_world 5"
    by (simp add: idle_def isOpen_def streaming_world_def new_MessageReceiver_def Let_def)
  have e: "negotiateClaim (all_succeed 0) = None" "createReceiver (all_succeed 0) = None"
    by (simp_all add: all_succeed_def)
  have s1: "streamingReceiver (entityContext fresh_world) = None"
    by (simp add: fresh_world_def empty_context_def)
  have s2: "streamingReceiver (entityContext streaming_world) = Some 0"
    "batchingReceiver (entityContext streaming_world) = None"
    by (simp_all add: streaming_world_def streaming_context_def)
  note a = registration_frame [OF r1, of "all_succeed 0" translate0 unique0 None, simplified slot.simps other_role.simps]
  note b = registration_frame [OF r2, of "all_succeed 0" translate0 unique0 None, simplified slot.simps other_role.simps]
  from a i1 e s1 have 1: "streamingReceiver
        (entityContext (snd (init translate0 unique0 fresh_world 0 None (all_succeed 0)))) =
       Some 0" by simp
  from b i2 e s2 have 2: "streamingReceiver
        (entityContext (snd (init translate0 unique0 streaming_world 5 None (all_succeed 0)))) =
       Some 0" by simp
  from b i2 e s2 have 3: "batchingReceiver
        (entityContext (snd (init translate0 unique0 streaming_world 5 None (all_succeed 0)))) =
       None" by simp
  from b have 4: "streamingReceiver (entityContext (deleteFromCache streaming_world 5)) = None"
    by simp
  show ?thesis
    using r1 i1 e s1 1 r2 i2 s2(1) 2 3 4 by (intro conjI)
qed

lemma close_without_link:
  "receiver (receivers w this) = None \<Longrightarrow> close w this = w"
  by (simp add: close_def)

lemma receiver_close: "receiver (receivers (close w this) this) = None"
  by (simp add: close_def closeLink_def deleteFromCache_def Let_def split: option.splits)

text \<open>
  C10: \<open>close()\<close> on a receiver without a link changes nothing, and a second \<open>close()\<close>
  right after a first one changes nothing: the receiver, the Entity Context, the links and
  the effects are those after the first.
\<close>

theorem close_idempotent:
  "(receiver (receivers w this) = None \<longrightarrow> close w this = w)
   \<and> close (close w this) this = close w this"
proof
  show "receiver (receivers w this) = None \<longrightarrow> close w this = w"
    using close_without_link by blast
  show "close (close w this) this = close w this"
    by (rule close_without_link [OF receiver_close])
qed

theorem close_idempotent_witness:
  "receiver (receivers fresh_world 0) = None
   \<and> close fresh_world 0 = fresh_world
   \<and> receiver (receivers streaming_world 0) = Some 0
   \<and> streamingReceiver (entityContext (close streaming_world 0)) = None
   \<and> close (close streaming_world 0) 0 = close streaming_world 0"
proof -
  have h: "receiver (receivers fresh_world 0) = None"
    by (simp add: fresh_world_def new_MessageReceiver_def Let_def)
  have s: "receiver (receivers streaming_world 0) = Some 0"
    by (simp add: streaming_world_def)
  have c: "streamingReceiver (entityContext (close streaming_world 0)) = None"
    by (simp add: close_def closeLink_def deleteFromCache_def streaming_world_def
        new_MessageReceiver_def Let_def)
  have 1: "close fresh_world 0 = fresh_world"
    by (rule close_idempotent [THEN conjunct1, THEN mp, OF h])
  have 2: "close (close streaming_world 0) 0 = close streaming_world 0"
    by (rule close_idempotent [THEN conjunct2])
  show ?thesis
    using h 1 s c 2 by (intro conjI)
qed

section \<open>The detached operation of the Entity Context\<close>

text \<open>
  C5 does not hold of the code: the third block of \<open>detached\<close> reads the slot of the
  batching receiver a second time where its comment and its log message speak of the
  streaming receiver. With a streaming receiver registered, open and not connecting, and
  neither sender nor batching receiver, \<open>detached\<close> of the Entity Context changes nothing:
  the \<open>detached\<close> of the streaming receiver is not called.
\<close>

theorem context_detached_skips_streaming:
  "streamingReceiver (entityContext streaming_world) = Some 0
   \<and> \<not> isConnecting (receivers streaming_world 0)
   \<and> context_detached translate0 unique0 2 streaming_world None all_succeed all_succeed =
       streaming_world"
  by (simp add: context_detached_def streaming_world_def streaming_context_def
      new_MessageReceiver_def Let_def)

text \<open>
  With a batching receiver registered instead, its \<open>detached\<close> runs twice: the link is
  re-established two times in a row.
\<close>

lemma context_detached_batching_twice:
  "effects (context_detached translate0 unique0 2 batching_world None all_succeed all_succeed) =
     [Retry 2 15, NegotiateClaim 1,
      CreateReceiver 1
        \<lparr>options_name = ''queue-1'', autoaccept = False, rcv_settle_mode = 1,
         snd_settle_mode = 0, source_address = ''queue'', credit_window = 1\<rparr>,
      EnsureTokenRenewal 1,
      Retry 2 15, NegotiateClaim 1,
      CreateReceiver 1
        \<lparr>options_name = ''queue-1'', autoaccept = False, rcv_settle_mode = 1,
         snd_settle_mode = 0, source_address = ''queue'', credit_window = 1\<rparr>,
      EnsureTokenRenewal 1]"
  by (simp add: context_detached_def detached_def batching_world_def wasCloseInitiated_def
      open_link_def shouldReopen_def closeLink_def Let_def createReceiverOptions_def retry_def
      init_def init_failed_def all_succeed_def isOpen_def numeral_2_eq_2
      new_MessageReceiver_def default_options_def batching_context_def unique0_def)

section \<open>Properties of the handling of one message\<close>

lemma inv_start: "renewal_inv r (onAmqpMessage r now)"
  by (simp add: renewal_inv_def onAmqpMessage_def autoRenewLockTask_def Let_def)

lemma scheduled_single:
  assumes "renewal_inv r st" "h \<in> scheduled st"
  shows "scheduled st = {h}"
proof -
  have all: "\<forall>x \<in> scheduled st. renewTimer st = Some x"
    using assms(1) by (simp add: renewal_inv_def)
  have "x = h" if "x \<in> scheduled st" for x
    using all that assms(2) by (metis option.inject)
  with assms(2) show ?thesis by blast
qed

lemma inv_TimerFired:
  assumes "renewal_inv r st"
  shows "renewal_inv r (message_step translate lockLost r st (TimerFired h))"
proof (cases "h \<in> scheduled st")
  case True
  from scheduled_single [OF assms True] have s: "scheduled st = {h}" .
  have c: "continueExecution st" "autoRenewLock r" "phase st = Handling"
    using assms s unfolding renewal_inv_def by auto
  show ?thesis
    using assms c s unfolding renewal_inv_def by simp
next
  case False
  with assms show ?thesis by simp
qed

lemma inv_RenewLockResolved:
  assumes "renewal_inv r st"
  shows "renewal_inv r (message_step translate lockLost r st (RenewLockResolved now))"
proof (cases "renewing st")
  case True
  then have s: "scheduled st = {}" using assms by (simp add: renewal_inv_def)
  show ?thesis
    using assms True s unfolding renewal_inv_def
    by (auto simp: autoRenewLockTask_def Let_def)
next
  case False
  with assms show ?thesis by simp
qed

lemma inv_RenewLockRejected:
  assumes "renewal_inv r st"
  shows "renewal_inv r (message_step translate lockLost r st (RenewLockRejected err))"
  using assms unfolding renewal_inv_def by simp

lemma inv_clear:
  assumes "renewal_inv r st"
  shows "scheduled (clearTimerAndStopExecution r st) = {}
    \<and> \<not> continueExecution (clearTimerAndStopExecution r st)
    \<and> renewing (clearTimerAndStopExecution r st) = renewing st
    \<and> renewTimer (clearTimerAndStopExecution r st) = renewTimer st
    \<and> phase (clearTimerAndStopExecution r st) = phase st
    \<and> actions (clearTimerAndStopExecution r st) =
        actions st @ (if autoRenewLock r then [ClearTimeout (renewTimer st)] else [])"
proof (cases "autoRenewLock r")
  case True
  have "scheduled st - {h} = {}" if "renewTimer st = Some h" for h
    using assms that unfolding renewal_inv_def by auto
  moreover have "scheduled st = {}" if "renewTimer st = None"
    using assms that unfolding renewal_inv_def by auto
  ultimately show ?thesis
    using True by (simp add: clearTimerAndStopExecution_def split: option.splits)
next
  case False
  then have "\<not> continueExecution st" "scheduled st = {}"
    using assms unfolding renewal_inv_def by auto
  with False show ?thesis by (simp add: clearTimerAndStopExecution_def)
qed

lemma inv_HandlerResolved:
  assumes "renewal_inv r st"
  shows "renewal_inv r (message_step translate lockLost r st HandlerResolved)"
proof (cases "phase st = Handling")
  case True
  have n: "\<not> autoRenewLock r \<longrightarrow> \<not> renewing st"
    using assms unfolding renewal_inv_def by simp
  show ?thesis
    using True n inv_clear [OF assms] unfolding renewal_inv_def
    by (simp add: Let_def)
next
  case False
  with assms show ?thesis by simp
qed

lemma inv_HandlerRejected:
  assumes "renewal_inv r st"
  shows "renewal_inv r (message_step translate lockLost r st (HandlerRejected err))"
proof (cases "phase st = Handling")
  case True
  have n: "\<not> autoRenewLock r \<longrightarrow> \<not> renewing st"
    using assms unfolding renewal_inv_def by simp
  show ?thesis
    using True n inv_clear [OF assms] unfolding renewal_inv_def
    by (simp add: Let_def)
next
  case False
  with assms show ?thesis by simp
qed

lemma inv_Settlement:
  assumes "renewal_inv r st"
  shows "renewal_inv r (message_step translate lockLost r st SettlementResolved)"
    and "renewal_inv r (message_step translate lockLost r st (SettlementRejected err))"
  using assms unfolding renewal_inv_def by auto

lemma inv_step:
  assumes "renewal_inv r st"
  shows "renewal_inv r (message_step translate lockLost r st ev)"
  using assms
  by (cases ev)
    (simp_all only: inv_TimerFired inv_RenewLockResolved inv_RenewLockRejected
      inv_HandlerResolved inv_HandlerRejected inv_Settlement)

lemma inv_run: "renewal_inv r st \<Longrightarrow> renewal_inv r (message_run translate lockLost r st evs)"
  unfolding message_run_def by (induction evs arbitrary: st) (simp_all add: inv_step)

lemma handled_step:
  assumes "handled st"
  shows "handled (message_step translate lockLost r st ev)
    \<and> (phase st = Done \<longrightarrow> phase (message_step translate lockLost r st ev) = Done)
    \<and> (\<exists>es. actions (message_step translate lockLost r st ev) = actions st @ es
          \<and> list_all is_error_callback es
          \<and> (phase st = Done \<longrightarrow> list_all is_renew_error es))"
  using assms
  by (cases ev) (auto simp: handled_def autoRenewLockTask_def)

lemma handled_run:
  assumes "handled st"
  shows "\<exists>es. actions (message_run translate lockLost r st evs) = actions st @ es
          \<and> list_all is_error_callback es
          \<and> (phase st = Done \<longrightarrow> list_all is_renew_error es)"
  using assms unfolding message_run_def
proof (induction evs arbitrary: st)
  case Nil
  then show ?case by simp
next
  case (Cons ev evs)
  let ?st1 = "message_step translate lockLost r st ev"
  from handled_step [OF Cons.prems, of translate lockLost r ev]
  obtain es1 where h: "handled ?st1" and d: "phase st = Done \<longrightarrow> phase ?st1 = Done"
    and es1: "actions ?st1 = actions st @ es1" "list_all is_error_callback es1"
      "phase st = Done \<longrightarrow> list_all is_renew_error es1" by blast
  from Cons.IH [OF h]
  obtain es2 where es2: "actions (foldl (message_step translate lockLost r) ?st1 evs) =
      actions ?st1 @ es2" "list_all is_error_callback es2"
      "phase ?st1 = Done \<longrightarrow> list_all is_renew_error es2" by blast
  have "actions (foldl (message_step translate lockLost r) st (ev # evs)) =
      actions st @ (es1 @ es2)"
    using es1(1) es2(1) by simp
  moreover have "list_all is_error_callback (es1 @ es2)"
    using es1(2) es2(2) by simp
  moreover have "phase st = Done \<longrightarrow> list_all is_renew_error (es1 @ es2)"
    using es1(3) es2(3) d by simp
  ultimately show ?case by blast
qed

lemma error_callbacks_only:
  assumes "list_all is_error_callback es"
  shows "RenewLock \<notin> set es \<and> Complete \<notin> set es \<and> Abandon \<notin> set es"
  using assms by (auto simp: list_all_iff)

lemma renew_errors_only:
  assumes "list_all is_renew_error es"
  shows "set es \<subseteq> range OnRenewError"
proof
  fix a assume "a \<in> set es"
  with assms have "is_renew_error a" by (simp add: list_all_iff)
  then show "a \<in> range OnRenewError" by (cases a) simp_all
qed

lemma handled_update:
  "handled (st\<lparr>phase := p, actions := as\<rparr>) =
     (p \<noteq> Handling \<and> scheduled st = {} \<and> \<not> continueExecution st)"
  "handled (st\<lparr>phase := p\<rparr>) =
     (p \<noteq> Handling \<and> scheduled st = {} \<and> \<not> continueExecution st)"
  by (simp_all add: handled_def)

lemma resolved_step:
  assumes inv: "renewal_inv r st" and h: "phase st = Handling"
  shows "handled (message_step translate lockLost r st HandlerResolved)
    \<and> actions (message_step translate lockLost r st HandlerResolved) =
          actions st @ (if autoRenewLock r then [ClearTimeout (renewTimer st)] else []) @
            (if autoComplete r \<and> receiveMode r = peekLock then [Complete] else [])"
  using h inv_clear [OF inv]
  by (cases "autoComplete r \<and> receiveMode r = peekLock")
    (simp_all add: handled_update Let_def)

lemma rejected_step:
  assumes inv: "renewal_inv r st" and h: "phase st = Handling"
  shows "handled (message_step translate lockLost r st (HandlerRejected err))
    \<and> actions (message_step translate lockLost r st (HandlerRejected err)) =
          actions st @ (if autoRenewLock r then [ClearTimeout (renewTimer st)] else []) @
            (if err_name (translate err) \<noteq> lockLost \<and> receiveMode r = peekLock
             then [Abandon] else [])
    \<and> (err_name (translate err) = lockLost \<longrightarrow>
          phase (message_step translate lockLost r st (HandlerRejected err)) = Done)"
  using h inv_clear [OF inv]
  by (cases "err_name (translate err) \<noteq> lockLost \<and> receiveMode r = peekLock")
    (simp_all add: handled_update Let_def)

lemma completion_step:
  assumes inv: "renewal_inv r st" and h: "phase st = Handling"
    and c: "completion = HandlerResolved \<or> completion = HandlerRejected err"
  shows "handled (message_step translate lockLost r st completion)
    \<and> (\<exists>settle. actions (message_step translate lockLost r st completion) =
          actions st @ (if autoRenewLock r then [ClearTimeout (renewTimer st)] else []) @ settle
        \<and> (settle = [] \<or> settle = [Complete] \<or> settle = [Abandon]))"
proof -
  from c show ?thesis
  proof
    assume "completion = HandlerResolved"
    with resolved_step [OF inv h, of translate lockLost] show ?thesis by simp
  next
    assume "completion = HandlerRejected err"
    with rejected_step [OF inv h, of translate lockLost err] show ?thesis by simp
  qed
qed

lemma lock_lost_step:
  assumes inv: "renewal_inv r st" and h: "phase st = Handling"
    and l: "err_name (translate err) = lockLost"
  shows "handled (message_step translate lockLost r st (HandlerRejected err))
    \<and> phase (message_step translate lockLost r st (HandlerRejected err)) = Done
    \<and> actions (message_step translate lockLost r st (HandlerRejected err)) =
         actions st @ (if autoRenewLock r then [ClearTimeout (renewTimer st)] else [])"
  using rejected_step [OF inv h, of translate lockLost err] l by simp

text \<open>
  C4: for a message of a receiver with auto-renew active, take the moment the promise of
  the message handler settles, resolved or rejected, after any events since the message
  arrived. Up to then the receiver has called neither \<open>complete()\<close> nor \<open>abandon()\<close>. In
  that step it first calls \<open>clearTimeout\<close> on the renewal timeout and only then, if at
  all, \<open>complete()\<close> or \<open>abandon()\<close>; no timeout is pending after it. Whatever events
  follow, \<open>renewLock\<close> is never called again, nor is the message settled again.
\<close>

theorem renewal_cancelled_at_completion:
  assumes "autoRenewLock r"
    and "st = message_run translate lockLost r (onAmqpMessage r now) before"
    and "phase st = Handling"
    and "completion = HandlerResolved \<or> completion = HandlerRejected err"
    and "st' = message_step translate lockLost r st completion"
  shows "Complete \<notin> set (actions st) \<and> Abandon \<notin> set (actions st)
    \<and> (\<exists>settle. actions st' = actions st @ ClearTimeout (renewTimer st) # settle
          \<and> (settle = [] \<or> settle = [Complete] \<or> settle = [Abandon]))
    \<and> scheduled st' = {} \<and> \<not> continueExecution st'
    \<and> (\<forall>later. \<exists>es. actions (message_run translate lockLost r st' later) = actions st' @ es
          \<and> RenewLock \<notin> set es \<and> Complete \<notin> set es \<and> Abandon \<notin> set es)"
proof -
  have inv: "renewal_inv r st"
    unfolding assms(2) by (rule inv_run [OF inv_start])
  then have 1: "Complete \<notin> set (actions st) \<and> Abandon \<notin> set (actions st)"
    using assms(3) by (simp add: renewal_inv_def)
  from completion_step [OF inv assms(3,4), of translate lockLost]
  have h: "handled st'"
    and 2: "\<exists>settle. actions st' = actions st @ ClearTimeout (renewTimer st) # settle
          \<and> (settle = [] \<or> settle = [Complete] \<or> settle = [Abandon])"
    using assms(1) unfolding assms(5) by simp_all
  from h have 3: "scheduled st' = {} \<and> \<not> continueExecution st'"
    by (simp add: handled_def)
  have 4: "\<exists>es. actions (message_run translate lockLost r st' later) = actions st' @ es
          \<and> RenewLock \<notin> set es \<and> Complete \<notin> set es \<and> Abandon \<notin> set es" for later
    using handled_run [OF h, of translate lockLost r later] error_callbacks_only by blast
  from 1 2 3 4 show ?thesis by blast
qed

theorem renewal_cancelled_at_completion_witness:
  "autoRenewLock default_receiver
   \<and> phase (message_run translate0 ''MessageLockLostError'' default_receiver
        (onAmqpMessage default_receiver 0) [TimerFired 0, RenewLockResolved 10]) = Handling
   \<and> scheduled (message_run translate0 ''MessageLockLostError'' default_receiver
        (onAmqpMessage default_receiver 0) [TimerFired 0, RenewLockResolved 10]) = {1}
   \<and> scheduled (message_run translate0 ''MessageLockLostError'' default_receiver
        (onAmqpMessage default_receiver 0)
        [TimerFired 0, RenewLockResolved 10, HandlerResolved]) = {}
   \<and> actions (message_run translate0 ''MessageLockLostError'' default_receiver
        (onAmqpMessage default_receiver 0)
        [TimerFired 0, RenewLockResolved 10, HandlerResolved]) =
       [RenewLock, ClearTimeout (Some 1)]"
proof -
  let ?run = "message_run translate0 ''MessageLockLostError'' default_receiver
        (onAmqpMessage default_receiver 0)"
  have r: "autoRenewLock default_receiver"
    by (simp add: default_receiver_def new_MessageReceiver_def default_options_def Let_def)
  have m: "maxAutoRenewDurationInSeconds default_receiver = 300"
    "autoComplete default_receiver = False"
    by (simp_all add: default_receiver_def new_MessageReceiver_def default_options_def Let_def)
  have s: "?run [TimerFired 0, RenewLockResolved 10] =
      \<lparr>renewTimer = Some 1, continueExecution = True, totalAutoLockRenewDuration = 300000,
       scheduled = {1}, nextHandle = 2, renewing = False, phase = Handling,
       actions = [RenewLock]\<rparr>"
    by (simp add: message_run_def onAmqpMessage_def autoRenewLockTask_def r m Let_def)
  have p: "phase (?run [TimerFired 0, RenewLockResolved 10]) = Handling"
    and q: "scheduled (?run [TimerFired 0, RenewLockResolved 10]) = {1}"
    by (simp_all add: s)
  have e: "?run [TimerFired 0, RenewLockResolved 10, HandlerResolved] =
      message_step translate0 ''MessageLockLostError'' default_receiver
        (?run [TimerFired 0, RenewLockResolved 10]) HandlerResolved"
    by (simp add: message_run_def)
  have a: "actions (?run [TimerFired 0, RenewLockResolved 10, HandlerResolved]) =
       [RenewLock, ClearTimeout (Some 1)]"
    unfolding e s by (simp add: clearTimerAndStopExecution_def r m Let_def)
  from renewal_cancelled_at_completion [OF r refl p disjI1 [OF refl] e]
  have "scheduled (?run [TimerFired 0, RenewLockResolved 10, HandlerResolved]) = {}"
    by simp
  with r p q a show ?thesis by (intro conjI)
qed

text \<open>
  C6, as stated, fails in its second half: when the handler of a peek-lock receiver
  rejects with an error that translates to the lock-lost name, the receiver only stops
  the renewal; the application's error callback is not called.
\<close>

theorem lock_lost_not_forwarded_counterexample:
  "err_name (translate0 lock_lost) = ''MessageLockLostError''
   \<and> receiveMode default_receiver = peekLock
   \<and> actions (message_run translate0 ''MessageLockLostError'' default_receiver
        (onAmqpMessage default_receiver 0) [HandlerRejected lock_lost]) =
       [ClearTimeout (Some 0)]
   \<and> phase (message_run translate0 ''MessageLockLostError'' default_receiver
        (onAmqpMessage default_receiver 0) [HandlerRejected lock_lost]) = Done"
  by (simp add: message_run_def onAmqpMessage_def autoRenewLockTask_def
      clearTimerAndStopExecution_def default_receiver_def new_MessageReceiver_def
      default_options_def translate0_def lock_lost_def Let_def)

text \<open>
  C6, amended: when the handler rejects with an error that translates to the lock-lost
  name, the receiver calls neither \<open>complete()\<close> nor \<open>abandon()\<close> for the message, before,
  in that step or after, and it does not hand the error to the application's error
  callback: the step only stops the renewal, and the one call of the error callback that
  can still follow is for the failure of a renewal that was under way.
\<close>

theorem lock_lost_no_settlement:
  assumes "st = message_run translate lockLost r (onAmqpMessage r now) before"
    and "phase st = Handling"
    and "err_name (translate err) = lockLost"
    and "st' = message_step translate lockLost r st (HandlerRejected err)"
  shows "Complete \<notin> set (actions st) \<and> Abandon \<notin> set (actions st)
    \<and> actions st' = actions st @ (if autoRenewLock r then [ClearTimeout (renewTimer st)] else [])
    \<and> phase st' = Done
    \<and> (\<forall>later. \<exists>es. actions (message_run translate lockLost r st' later) = actions st' @ es
          \<and> set es \<subseteq> range OnRenewError)"
proof -
  have inv: "renewal_inv r st"
    unfolding assms(1) by (rule inv_run [OF inv_start])
  then have 1: "Complete \<notin> set (actions st) \<and> Abandon \<notin> set (actions st)"
    using assms(2) by (simp add: renewal_inv_def)
  from lock_lost_step [where translate = translate and err = err, OF inv assms(2,3)]
  have h: "handled st'" and d: "phase st' = Done"
    and 2: "actions st' =
      actions st @ (if autoRenewLock r then [ClearTimeout (renewTimer st)] else [])"
    unfolding assms(4) by simp_all
  have 3: "\<exists>es. actions (message_run translate lockLost r st' later) = actions st' @ es
          \<and> set es \<subseteq> range OnRenewError" for later
    using handled_run [OF h, of translate lockLost r later] d renew_errors_only by blast
  from 1 2 d 3 show ?thesis by blast
qed

theorem lock_lost_no_settlement_witness:
  "phase (message_run translate0 ''MessageLockLostError'' default_receiver
        (onAmqpMessage default_receiver 0) [TimerFired 0]) = Handling
   \<and> err_name (translate0 lock_lost) = ''MessageLockLostError''
   \<and> actions (message_run translate0 ''MessageLockLostError'' default_receiver
        (onAmqpMessage default_receiver 0) [TimerFired 0, HandlerRejected lock_lost]) =
       [RenewLock, ClearTimeout (Some 0)]
   \<and> phase (message_run translate0 ''MessageLockLostError'' default_receiver
        (onAmqpMessage default_receiver 0) [TimerFired 0, HandlerRejected lock_lost]) = Done"
proof -
  let ?run = "message_run translate0 ''MessageLockLostError'' default_receiver
        (onAmqpMessage default_receiver 0)"
  have r: "autoRenewLock default_receiver"
    by (simp add: default_receiver_def new_MessageReceiver_def default_options_def Let_def)
  have m: "maxAutoRenewDurationInSeconds default_receiver = 300"
    by (simp add: default_receiver_def new_MessageReceiver_def default_options_def Let_def)
  have s: "?run [TimerFired 0] =
      \<lparr>renewTimer = Some 0, continueExecution = True, totalAutoLockRenewDuration = 300000,
       scheduled = {}, nextHandle = 1, renewing = True, phase = Handling,
       actions = [RenewLock]\<rparr>"
    by (simp add: message_run_def onAmqpMessage_def autoRenewLockTask_def r m Let_def)
  have p: "phase (?run [TimerFired 0]) = Handling"
    by (simp add: s)
  have l: "err_name (translate0 lock_lost) = ''MessageLockLostError''"
    by (simp add: translate0_def lock_lost_def)
  have e: "?run [TimerFired 0, HandlerRejected lock_lost] =
      message_step translate0 ''MessageLockLostError'' default_receiver
        (?run [TimerFired 0]) (HandlerRejected lock_lost)"
    by (simp add: message_run_def)
  from lock_lost_no_settlement [where translate = translate0 and err = lock_lost, OF refl p l e]
  have "actions (?run [TimerFired 0, HandlerRejected lock_lost]) =
      actions (?run [TimerFired 0]) @ [ClearTimeout (renewTimer (?run [TimerFired 0]))]"
    and d: "phase (?run [TimerFired 0, HandlerRejected lock_lost]) = Done"
    using r by simp_all
  then have a: "actions (?run [TimerFired 0, HandlerRejected lock_lost]) =
      [RenewLock, ClearTimeout (Some 0)]"
    by (simp add: s)
  from p l a d show ?thesis by (intro conjI)
qed

end
